(* ===== verification/Py_Prelude.thy ===== *)
theory Py_Prelude
  imports Main "HOL-Library.Char_ord" "HOL-Library.Sublist"
begin

section \<open>Prelude: the Python operations the components share\<close>

text \<open>
  The string, list and dictionary operations of Python's standard library that the modelled
  code uses, as executable functions, and the generic lemmas the component theories share.
  A Python \<open>str\<close> is an Isabelle \<open>string\<close> holding its UTF-8 bytes, so an ASCII text is the
  list of its characters. A Python exception that the code catches is an \<open>Inl\<close> of a sum or
  a \<open>None\<close>. The collection \<open>py_eval\<close> gathers the equations that evaluate these operations
  on concrete inputs; \<open>py_str\<close> gathers their algebraic laws.
\<close>

named_theorems py_eval \<open>evaluation equations of the string operations\<close>
named_theorems py_str \<open>algebraic laws of the string operations\<close>

subsection \<open>Characters\<close>

definition char_code :: "char \<Rightarrow> nat" where
  "char_code c = of_char c"

definition is_digit :: "char \<Rightarrow> bool" where
  "is_digit c = (48 \<le> char_code c \<and> char_code c \<le> 57)"

definition is_upper_ascii :: "char \<Rightarrow> bool" where
  "is_upper_ascii c = (65 \<le> char_code c \<and> char_code c \<le> 90)"

definition is_lower_ascii :: "char \<Rightarrow> bool" where
  "is_lower_ascii c = (97 \<le> char_code c \<and> char_code c \<le> 122)"

definition is_alnum_ascii :: "char \<Rightarrow> bool" where
  "is_alnum_ascii c = (is_digit c \<or> is_upper_ascii c \<or> is_lower_ascii c)"

text \<open>The value of a hexadecimal digit, \<open>None\<close> for any other character.\<close>

definition hex_value :: "char \<Rightarrow> nat option" where
  "hex_value c =
     (let n = char_code c in
      if 48 \<le> n \<and> n \<le> 57 then Some (n - 48)
      else if 65 \<le> n \<and> n \<le> 70 then Some (n - 55)
      else if 97 \<le> n \<and> n \<le> 102 then Some (n - 87)
      else None)"

definition lower_char :: "char \<Rightarrow> char" where
  "lower_char c = (if is_upper_ascii c then char_of (char_code c + 32) else c)"

definition upper_char :: "char \<Rightarrow> char" where
  "upper_char c = (if is_lower_ascii c then char_of (char_code c - 32) else c)"

text \<open>\<open>str.lower\<close> and \<open>str.upper\<close> on ASCII letters.\<close>

definition str_lower :: "string \<Rightarrow> string" where
  "str_lower s = map lower_char s"

definition str_upper :: "string \<Rightarrow> string" where
  "str_upper s = map upper_char s"

lemmas char_simps =
  char_code_def is_digit_def is_upper_ascii_def is_lower_ascii_def is_alnum_ascii_def
  hex_value_def lower_char_def upper_char_def

declare char_simps [py_eval] str_lower_def [py_eval] str_upper_def [py_eval]

lemma lower_char_eq_iff [py_str]:
  "\<not> is_lower_ascii d \<Longrightarrow> \<not> is_upper_ascii d \<Longrightarrow> lower_char c = d \<longleftrightarrow> c = d"
  by (auto simp: lower_char_def is_lower_ascii_def is_upper_ascii_def char_code_def)

lemma lower_char_idem [simp]: "lower_char (lower_char c) = lower_char c"
  by (auto simp: lower_char_def is_upper_ascii_def char_code_def)

lemma lower_upper_char [simp]: "lower_char (upper_char c) = lower_char c"
proof (cases "is_lower_ascii c")
  case True
  then have "of_char c - 32 < (256 :: nat)"
    unfolding is_lower_ascii_def char_code_def by arith
  then have "of_char (char_of (of_char c - 32 :: nat) :: char) = (of_char c - 32 :: nat)"
    by simp
  with True show ?thesis
    by (auto simp: lower_char_def upper_char_def is_upper_ascii_def is_lower_ascii_def
        char_code_def)
qed (simp add: upper_char_def)

lemma upper_char_idem [simp]: "upper_char (upper_char c) = upper_char c"
  by (auto simp: upper_char_def is_lower_ascii_def char_code_def)

lemma str_lower_idem [simp]: "str_lower (str_lower s) = str_lower s"
  by (simp add: str_lower_def)

lemma str_upper_idem [simp]: "str_upper (str_upper s) = str_upper s"
  by (simp add: str_upper_def)

lemma str_lower_append [simp]: "str_lower (a @ b) = str_lower a @ str_lower b"
  by (simp add: str_lower_def)

lemma in_set_str_lower [py_str]:
  assumes "\<not> is_lower_ascii d" and "\<not> is_upper_ascii d"
  shows "d \<in> set (str_lower s) \<longleftrightarrow> d \<in> set s"
proof -
  have "d \<in> set (str_lower s) \<longleftrightarrow> (\<exists>c \<in> set s. lower_char c = d)"
    by (auto simp: str_lower_def)
  then show ?thesis using lower_char_eq_iff [OF assms] by auto
qed

lemma str_lower_length [simp]: "length (str_lower s) = length s"
  by (simp add: str_lower_def)

lemma str_lower_upper [simp]: "str_lower (str_upper s) = str_lower s"
  by (simp add: str_lower_def str_upper_def comp_def)

subsection \<open>Splitting and stripping\<close>

text \<open>\<open>s.split(c)\<close> for a one-character separator.\<close>

fun str_split :: "char \<Rightarrow> string \<Rightarrow> string list" where
  "str_split c [] = [[]]"
| "str_split c (x # xs) =
     (if x = c then [] # str_split c xs
      else case str_split c xs of [] \<Rightarrow> [[x]] | y # ys \<Rightarrow> (x # y) # ys)"

text \<open>\<open>sep.join(xs)\<close> for a one-character separator.\<close>

fun str_join :: "char \<Rightarrow> string list \<Rightarrow> string" where
  "str_join c [] = []"
| "str_join c [x] = x"
| "str_join c (x # y # ys) = x @ c # str_join c (y # ys)"

text \<open>\<open>s.split(c)[0]\<close>: everything before the first separator.\<close>

definition before_char :: "char \<Rightarrow> string \<Rightarrow> string" where
  "before_char c s = takeWhile (\<lambda>x. x \<noteq> c) s"

text \<open>\<open>s.rstrip(c)\<close> and \<open>s.lstrip(c)\<close> for one character.\<close>

definition rstrip_char :: "char \<Rightarrow> string \<Rightarrow> string" where
  "rstrip_char c s = rev (dropWhile (\<lambda>x. x = c) (rev s))"

definition lstrip_char :: "char \<Rightarrow> string \<Rightarrow> string" where
  "lstrip_char c s = dropWhile (\<lambda>x. x = c) s"

text \<open>ASCII white space as \<open>str.strip\<close> and \<open>str.split\<close> see it.\<close>

definition is_space :: "char \<Rightarrow> bool" where
  "is_space c = (let n = char_code c in (9 \<le> n \<and> n \<le> 13) \<or> (28 \<le> n \<and> n \<le> 32))"

definition str_strip :: "string \<Rightarrow> string" where
  "str_strip s = rev (dropWhile is_space (rev (dropWhile is_space s)))"

text \<open>\<open>str.splitlines\<close> over the ASCII line boundaries.\<close>

definition is_line_break :: "char \<Rightarrow> bool" where
  "is_line_break c = (let n = char_code c in (10 \<le> n \<and> n \<le> 13) \<or> (28 \<le> n \<and> n \<le> 30))"

fun split_lines_acc :: "string \<Rightarrow> string \<Rightarrow> string list" where
  "split_lines_acc acc [] = (if acc = [] then [] else [rev acc])"
| "split_lines_acc acc (c # cs) =
     (if is_line_break c
      then rev acc #
        (case cs of
           d # ds \<Rightarrow>
             if char_code c = 13 \<and> char_code d = 10 then split_lines_acc [] ds
             else split_lines_acc [] cs
         | [] \<Rightarrow> [])
      else split_lines_acc (c # acc) cs)"

definition str_splitlines :: "string \<Rightarrow> string list" where
  "str_splitlines s = split_lines_acc [] s"

text \<open>\<open>s.startswith(p)\<close> and \<open>s.endswith(p)\<close> are \<open>prefix p s\<close> and \<open>suffix p s\<close>.\<close>

declare before_char_def [py_eval] rstrip_char_def [py_eval] lstrip_char_def [py_eval]
  is_space_def [py_eval] str_strip_def [py_eval] is_line_break_def [py_eval]
  str_splitlines_def [py_eval]

lemma str_split_nonempty [simp]: "str_split c s \<noteq> []"
  by (induction s) (auto split: list.splits)

lemma str_split_no_sep: "c \<notin> set s \<Longrightarrow> str_split c s = [s]"
  by (induction s) auto

lemma str_split_append [py_str]:
  "c \<notin> set a \<Longrightarrow> str_split c (a @ c # b) = a # str_split c b"
  by (induction a) auto

lemma str_split_append_sep [py_str]:
  "str_split c (a @ c # b) = str_split c a @ str_split c b"
proof (induction a)
  case (Cons x a)
  then show ?case by (cases "str_split c a") auto
qed simp

lemma str_split_parts: "p \<in> set (str_split c s) \<Longrightarrow> c \<notin> set p"
proof (induction s arbitrary: p)
  case (Cons x xs)
  then show ?case
    by (cases "str_split c xs") (auto split: if_splits)
qed simp

lemma str_join_split [simp]: "str_join c (str_split c s) = s"
proof (induction s)
  case (Cons x xs)
  then show ?case
    by (cases "str_split c xs"; cases "tl (str_split c xs)") auto
qed simp

lemma str_split_join [py_str]:
  "ps \<noteq> [] \<Longrightarrow> \<forall>p \<in> set ps. c \<notin> set p \<Longrightarrow> str_split c (str_join c ps) = ps"
proof (induction c ps rule: str_join.induct)
  case (2 c x)
  then show ?case by (simp add: str_split_no_sep)
next
  case (3 c x y ys)
  then show ?case by (simp add: str_split_append)
qed simp

lemma length_str_split: "length (str_split c s) = Suc (count_list s c)"
  by (induction s) (auto split: list.splits)

lemma before_char_no_sep: "c \<notin> set s \<Longrightarrow> before_char c s = s"
  by (auto simp: before_char_def takeWhile_eq_all_conv)

lemma before_char_append [py_str]: "c \<notin> set a \<Longrightarrow> before_char c (a @ c # b) = a"
  by (simp add: before_char_def takeWhile_append)

lemma before_char_notin [simp]: "c \<notin> set (before_char c s)"
  by (auto simp: before_char_def dest: set_takeWhileD)

lemma rstrip_char_snoc [simp]: "rstrip_char c (s @ [c]) = rstrip_char c s"
  by (simp add: rstrip_char_def)

lemma rstrip_char_replicate [simp]: "rstrip_char c (s @ replicate n c) = rstrip_char c s"
  by (induction n arbitrary: s) (simp_all add: replicate_append_same [symmetric] flip: append_assoc)

lemma rstrip_char_idem [simp]: "rstrip_char c (rstrip_char c s) = rstrip_char c s"
  by (simp add: rstrip_char_def)

lemma rstrip_char_id: "s = [] \<or> last s \<noteq> c \<Longrightarrow> rstrip_char c s = s"
  by (cases s rule: rev_cases) (auto simp: rstrip_char_def)

lemma rstrip_char_decomp: "\<exists>n. s = rstrip_char c s @ replicate n c"
proof (induction s rule: rev_induct)
  case (snoc x s)
  show ?case
  proof (cases "x = c")
    case True
    from snoc obtain n where "s = rstrip_char c s @ replicate n c" by blast
    then have "s @ [x] = rstrip_char c (s @ [x]) @ replicate (Suc n) c"
      using True by (metis append_assoc replicate_append_same replicate_Suc rstrip_char_snoc)
    then show ?thesis by blast
  next
    case False
    then have "rstrip_char c (s @ [x]) = s @ [x]" by (simp add: rstrip_char_id)
    then show ?thesis by (metis append_Nil2 replicate_0)
  qed
qed (simp add: rstrip_char_def)

lemma rstrip_char_prefix: "prefix (rstrip_char c s) s"
  unfolding rstrip_char_def
  by (metis rev_rev_ident suffix_dropWhile suffix_to_prefix)

subsection \<open>Decimal numbers\<close>

definition digit_char :: "nat \<Rightarrow> char" where
  "digit_char n = char_of (48 + n)"

fun dec_string :: "nat \<Rightarrow> string" where
  "dec_string n =
     (if n < 10 then [digit_char n] else dec_string (n div 10) @ [digit_char (n mod 10)])"

declare dec_string.simps [simp del]

definition digits_value :: "string \<Rightarrow> nat" where
  "digits_value s = foldl (\<lambda>acc c. 10 * acc + (char_code c - 48)) 0 s"

text \<open>\<open>s.isascii() and s.isdigit()\<close>: non-empty and digits only.\<close>

definition all_digits :: "string \<Rightarrow> bool" where
  "all_digits s = (s \<noteq> [] \<and> list_all is_digit s)"

declare digit_char_def [py_eval] digits_value_def [py_eval] all_digits_def [py_eval]

lemma char_code_digit: "n < 10 \<Longrightarrow> char_code (digit_char n) = 48 + n"
  by (simp add: char_code_def digit_char_def)

lemma is_digit_digit_char: "n < 10 \<Longrightarrow> is_digit (digit_char n)"
  by (simp add: is_digit_def char_code_digit)

lemma all_digits_dec_string: "all_digits (dec_string n)"
proof (induction n rule: dec_string.induct)
  case (1 n)
  then show ?case
    by (subst dec_string.simps) (auto simp: all_digits_def is_digit_digit_char)
qed

lemma digits_value_dec_string [simp]: "digits_value (dec_string n) = n"
proof (induction n rule: dec_string.induct)
  case (1 n)
  then show ?case
    by (subst dec_string.simps) (auto simp: digits_value_def char_code_digit)
qed

lemma digit_not_in_all_digits: "all_digits s \<Longrightarrow> \<not> is_digit c \<Longrightarrow> c \<notin> set s"
  by (auto simp: all_digits_def list_all_iff)

text \<open>
  Python's \<open>int(text)\<close> on ASCII text: white space around, one sign, digits with single
  underscores between them.
\<close>

fun underscore_digits :: "string \<Rightarrow> bool" where
  "underscore_digits [] = False"
| "underscore_digits [c] = is_digit c"
| "underscore_digits (c # d # s) =
     (is_digit c \<and>
       (if d = CHR ''_'' then underscore_digits s else underscore_digits (d # s)))"

definition unsigned_int :: "string \<Rightarrow> int option" where
  "unsigned_int s =
     (if underscore_digits s
      then Some (int (digits_value (filter (\<lambda>c. c \<noteq> CHR ''_'') s))) else None)"

definition py_int :: "string \<Rightarrow> int option" where
  "py_int s =
     (case str_strip s of
        [] \<Rightarrow> None
      | c # r \<Rightarrow>
          if c = CHR ''-'' then map_option uminus (unsigned_int r)
          else if c = CHR ''+'' then unsigned_int r
          else unsigned_int (c # r))"

subsection \<open>Optional values and association lists\<close>

text \<open>\<open>x or d\<close> for an optional string: Python's \<open>or\<close> also replaces the empty string.\<close>

definition or_default :: "string option \<Rightarrow> string \<Rightarrow> string" where
  "or_default x d = (case x of None \<Rightarrow> d | Some s \<Rightarrow> if s = [] then d else s)"

text \<open>\<open>d.pop(k, None)\<close> on an insertion-ordered dictionary.\<close>

definition assoc_delete :: "'k \<Rightarrow> ('k \<times> 'v) list \<Rightarrow> ('k \<times> 'v) list" where
  "assoc_delete k = filter (\<lambda>(k', _). k' \<noteq> k)"

text \<open>\<open>d[k] = v\<close>: an existing key keeps its place, a new one goes last.\<close>

fun assoc_put :: "'k \<Rightarrow> 'v \<Rightarrow> ('k \<times> 'v) list \<Rightarrow> ('k \<times> 'v) list" where
  "assoc_put k v [] = [(k, v)]"
| "assoc_put k v ((k', v') # xs) =
     (if k' = k then (k, v) # xs else (k', v') # assoc_put k v xs)"

lemma map_of_assoc_delete [simp]: "map_of (assoc_delete k xs) = (map_of xs)(k := None)"
  by (induction xs) (auto simp: assoc_delete_def)

lemma map_of_assoc_put [simp]: "map_of (assoc_put k v xs) = (map_of xs)(k \<mapsto> v)"
  by (induction xs) auto

lemma keys_assoc_put [simp]: "fst ` set (assoc_put k v xs) = insert k (fst ` set xs)"
  by (induction k v xs rule: assoc_put.induct) auto

lemma distinct_assoc_put [simp]:
  "distinct (map fst xs) \<Longrightarrow> distinct (map fst (assoc_put k v xs))"
proof (induction k v xs rule: assoc_put.induct)
  case (2 k v k' v' xs)
  have "fst ` set (assoc_put k v xs) = insert k (fst ` set xs)" by (rule keys_assoc_put)
  with 2 show ?case by auto
qed simp

lemma distinct_assoc_delete [simp]:
  "distinct (map fst xs) \<Longrightarrow> distinct (map fst (assoc_delete k xs))"
  unfolding assoc_delete_def by (rule distinct_map_filter)

lemma length_assoc_put:
  "length (assoc_put k v xs) = (if k \<in> fst ` set xs then length xs else Suc (length xs))"
  by (induction k v xs rule: assoc_put.induct) auto

subsection \<open>First match of a loop\<close>

text \<open>\<open>for x in xs: if p(x): return f(x)\<close>, falling through to a default.\<close>

fun first_some :: "('a \<Rightarrow> 'b option) \<Rightarrow> 'a list \<Rightarrow> 'b option" where
  "first_some f [] = None"
| "first_some f (x # xs) = (case f x of Some y \<Rightarrow> Some y | None \<Rightarrow> first_some f xs)"

lemma first_some_SomeE:
  assumes "first_some f xs = Some y"
  obtains x where "x \<in> set xs" and "f x = Some y"
  using assms by (induction xs) (auto split: option.splits)

lemma first_some_None_iff: "first_some f xs = None \<longleftrightarrow> (\<forall>x \<in> set xs. f x = None)"
  by (induction xs) (auto split: option.splits)

subsection \<open>Identifier patterns\<close>

text \<open>
  The character class \<open>[A-Za-z0-9_-]\<close>, and the two ways the code anchors it. With \<open>\A..\Z\<close> the
  whole text must match. With \<open>^..$\<close> and \<open>re.match\<close> the dollar sign also matches before one
  final newline, so a text that ends in a newline passes when what precedes it does.
\<close>

definition is_word_char :: "char \<Rightarrow> bool" where
  "is_word_char c = (is_alnum_ascii c \<or> c = CHR ''_'' \<or> c = CHR ''-'')"

definition newline_char :: char where "newline_char = CHR 0x0A"

definition re_word_full :: "nat \<Rightarrow> string \<Rightarrow> bool" where
  "re_word_full n s = (s \<noteq> [] \<and> length s \<le> n \<and> list_all is_word_char s)"

definition drop_final_newline :: "string \<Rightarrow> string" where
  "drop_final_newline s = (if s \<noteq> [] \<and> last s = newline_char then butlast s else s)"

definition re_word_dollar :: "nat \<Rightarrow> string \<Rightarrow> bool" where
  "re_word_dollar n s = re_word_full n (drop_final_newline s)"

declare is_word_char_def [py_eval] newline_char_def [py_eval] re_word_full_def [py_eval]
  drop_final_newline_def [py_eval] re_word_dollar_def [py_eval]

lemma newline_not_word [simp]: "\<not> is_word_char newline_char"
  by (simp add: py_eval)

lemma re_word_full_dollar: "re_word_full n s \<Longrightarrow> re_word_dollar n s"
proof -
  assume s: "re_word_full n s"
  then have "s \<noteq> []" and "is_word_char (last s)"
    by (auto simp: re_word_full_def list_all_iff)
  then have "last s \<noteq> newline_char" using newline_not_word by metis
  then show ?thesis using s by (simp add: re_word_dollar_def drop_final_newline_def)
qed

lemma re_word_dollar_newline: "re_word_full n s \<Longrightarrow> re_word_dollar n (s @ [newline_char])"
  by (simp add: re_word_dollar_def drop_final_newline_def)

lemma re_word_full_no_newline: "re_word_full n s \<Longrightarrow> newline_char \<notin> set s"
  using newline_not_word by (auto simp: re_word_full_def list_all_iff)

subsection \<open>Timestamps\<close>

text \<open>
  A timestamp field of a stored record, as the code's two decoders see it: absent (or the empty
  text), a text \<open>datetime.fromisoformat\<close> rejects, or an instant. Instants are integers in
  microseconds since the epoch, the resolution of Python's \<open>datetime\<close>; a text without a zone is
  read as UTC, as the code does.
\<close>

datatype stamp = No_Stamp | Bad_Stamp | At int

fun stamp_instant :: "stamp \<Rightarrow> int option" where
  "stamp_instant (At t) = Some t"
| "stamp_instant _ = None"

definition seconds :: "int \<Rightarrow> int" where "seconds n = n * 1000000"

lemma stamp_instant_Some [simp]: "stamp_instant s = Some t \<longleftrightarrow> s = At t"
  by (cases s) auto

end
