(* ===== verification/Ip_Address.thy ===== *)
theory Ip_Address
  imports Py_Prelude
begin

section \<open>IP literals and networks\<close>

text \<open>
  The part of Python's \<open>ipaddress\<close> module that \<open>proxy/host_match.py\<close> and
  \<open>proxy/swap_addon.py\<close> use: parsing an address literal, parsing a network literal, and
  membership. An address is its integer (and, for IPv6, its scope identifier, which takes
  part in equality); a rejected literal is \<open>None\<close> where Python raises \<open>ValueError\<close>.
\<close>

datatype ip = V4 int | V6 int "string option"

datatype ipnet = Net4 int nat | Net6 int nat

subsection \<open>IPv4 literals\<close>

definition parse_octet :: "string \<Rightarrow> int option" where
  "parse_octet s =
     (if \<not> all_digits s then None
      else if 3 < length s then None
      else if s \<noteq> ''0'' \<and> hd s = CHR ''0'' then None
      else if 255 < digits_value s then None
      else Some (int (digits_value s)))"

definition int_from_octets :: "int list \<Rightarrow> int" where
  "int_from_octets xs = foldl (\<lambda>acc b. acc * 256 + b) 0 xs"

definition those_octets :: "string list \<Rightarrow> int list option" where
  "those_octets xs = those (map parse_octet xs)"

definition ipv4_int_from_string :: "string \<Rightarrow> int option" where
  "ipv4_int_from_string s =
     (if s = [] then None
      else let octets = str_split CHR ''.'' s in
        if length octets \<noteq> 4 then None
        else map_option int_from_octets (those_octets octets))"

definition ipv4_address :: "string \<Rightarrow> ip option" where
  "ipv4_address s =
     (if CHR ''/'' \<in> set s then None else map_option V4 (ipv4_int_from_string s))"

subsection \<open>IPv6 literals\<close>

definition hex_digits_value :: "string \<Rightarrow> nat" where
  "hex_digits_value s =
     foldl (\<lambda>acc c. 16 * acc + (case hex_value c of Some v \<Rightarrow> v | None \<Rightarrow> 0)) 0 s"

definition parse_hextet :: "string \<Rightarrow> int option" where
  "parse_hextet s =
     (if \<not> list_all (\<lambda>c. hex_value c \<noteq> None) s then None
      else if 4 < length s then None
      else if s = [] then None
      else Some (int (hex_digits_value s)))"

text \<open>
  The last part of a literal such as \<open>::ffff:127.0.0.1\<close> is an IPv4 address and stands for
  two hextets. Python re-prints the two halves in hexadecimal; the model keeps each part as
  what \<open>_parse_hextet\<close> makes of it, and remembers whether the text was empty.
\<close>

datatype part = Empty_Part | Hextet int | Bad_Part

definition read_part :: "string \<Rightarrow> part" where
  "read_part s =
     (if s = [] then Empty_Part
      else case parse_hextet s of Some v \<Rightarrow> Hextet v | None \<Rightarrow> Bad_Part)"

definition v6_parts :: "string \<Rightarrow> part list option" where
  "v6_parts s =
     (let parts = str_split CHR '':'' s in
      if length parts < 3 then None
      else if CHR ''.'' \<in> set (last parts) then
        case ipv4_address (last parts) of
          Some (V4 n) \<Rightarrow>
            Some (map read_part (butlast parts) @ [Hextet (n div 65536), Hextet (n mod 65536)])
        | _ \<Rightarrow> None
      else Some (map read_part parts))"

fun hextets_value :: "int \<Rightarrow> part list \<Rightarrow> int option" where
  "hextets_value acc [] = Some acc"
| "hextets_value acc (Hextet v # ps) = hextets_value (acc * 65536 + v) ps"
| "hextets_value acc (_ # ps) = None"

text \<open>
  The position of the one empty part strictly inside the list (\<open>skip_index\<close>): none, one,
  or more than one (an error).
\<close>

definition inner_empties :: "part list \<Rightarrow> nat list" where
  "inner_empties ps = filter (\<lambda>i. ps ! i = Empty_Part) [1..<length ps - 1]"

definition v6_int_from_parts :: "part list \<Rightarrow> int option" where
  "v6_int_from_parts ps =
     (if 9 < length ps then None
      else case inner_empties ps of
        [] \<Rightarrow>
          if length ps \<noteq> 8 \<or> hd ps = Empty_Part \<or> last ps = Empty_Part then None
          else hextets_value 0 ps
      | [k] \<Rightarrow>
          let hi = (if hd ps = Empty_Part then k - 1 else k);
              lo0 = length ps - k - 1;
              lo = (if last ps = Empty_Part then lo0 - 1 else lo0)
          in if hd ps = Empty_Part \<and> hi \<noteq> 0 then None
             else if last ps = Empty_Part \<and> lo \<noteq> 0 then None
             else if 8 < hi + lo + 1 then None
             else (case hextets_value 0 (take hi ps) of
                 None \<Rightarrow> None
               | Some h \<Rightarrow>
                   hextets_value (h * 65536 ^ (8 - (hi + lo))) (drop (length ps - lo) ps))
      | _ \<Rightarrow> None)"

definition split_scope_id :: "string \<Rightarrow> (string \<times> string option) option" where
  "split_scope_id s =
     (if CHR ''%'' \<notin> set s then Some (s, None)
      else let scope = tl (dropWhile (\<lambda>c. c \<noteq> CHR ''%'') s) in
        if scope = [] \<or> CHR ''%'' \<in> set scope then None
        else Some (before_char CHR ''%'' s, Some scope))"

definition ipv6_address :: "string \<Rightarrow> ip option" where
  "ipv6_address s =
     (if CHR ''/'' \<in> set s then None
      else case split_scope_id s of
        None \<Rightarrow> None
      | Some (a, scope) \<Rightarrow>
          if a = [] then None
          else (case v6_parts a of
              None \<Rightarrow> None
            | Some ps \<Rightarrow> map_option (\<lambda>n. V6 n scope) (v6_int_from_parts ps)))"

text \<open>\<open>ipaddress.ip_address\<close>: IPv4 first, then IPv6, else \<open>ValueError\<close>.\<close>

definition ip_address :: "string \<Rightarrow> ip option" where
  "ip_address s = (case ipv4_address s of Some a \<Rightarrow> Some a | None \<Rightarrow> ipv6_address s)"

lemmas ip_parse_defs =
  ip_address_def ipv4_address_def ipv6_address_def ipv4_int_from_string_def those_octets_def
  parse_octet_def int_from_octets_def split_scope_id_def v6_parts_def read_part_def
  parse_hextet_def hex_digits_value_def v6_int_from_parts_def inner_empties_def

declare ip_parse_defs [py_eval]

subsection \<open>Networks\<close>

text \<open>\<open>a & netmask\<close> for a prefix of \<open>n\<close> of \<open>w\<close> bits.\<close>

definition masked :: "nat \<Rightarrow> nat \<Rightarrow> int \<Rightarrow> int" where
  "masked w n a = a div 2 ^ (w - n) * 2 ^ (w - n)"

fun in_net :: "ip \<Rightarrow> ipnet \<Rightarrow> bool" where
  "in_net (V4 a) (Net4 b n) = (masked 32 n a = b)"
| "in_net (V6 a sc) (Net6 b n) = (masked 128 n a = b)"
| "in_net _ _ = False"

text \<open>
  The prefix length after the slash: digits, or (IPv4 only) a dotted netmask or hostmask.
\<close>

definition prefix_from_prefix_string :: "nat \<Rightarrow> string \<Rightarrow> nat option" where
  "prefix_from_prefix_string w s =
     (if all_digits s \<and> digits_value s \<le> w then Some (digits_value s) else None)"

definition prefix_from_ip_int :: "int \<Rightarrow> nat option" where
  "prefix_from_ip_int m = find (\<lambda>n. m = 2 ^ 32 - 2 ^ (32 - n)) [0..<33]"

definition prefix_from_ip_string :: "string \<Rightarrow> nat option" where
  "prefix_from_ip_string s =
     (case ipv4_int_from_string s of
        None \<Rightarrow> None
      | Some m \<Rightarrow>
          (case prefix_from_ip_int m of
             Some n \<Rightarrow> Some n
           | None \<Rightarrow> prefix_from_ip_int (2 ^ 32 - 1 - m)))"

definition ipv4_network :: "string \<Rightarrow> string \<Rightarrow> ipnet option" where
  "ipv4_network a m =
     (case ipv4_address a of
        Some (V4 n) \<Rightarrow>
          (case prefix_from_prefix_string 32 m of
             Some p \<Rightarrow> Some (Net4 (masked 32 p n) p)
           | None \<Rightarrow> map_option (\<lambda>p. Net4 (masked 32 p n) p) (prefix_from_ip_string m))
      | _ \<Rightarrow> None)"

definition ipv6_network :: "string \<Rightarrow> string \<Rightarrow> ipnet option" where
  "ipv6_network a m =
     (case ipv6_address a of
        Some (V6 n sc) \<Rightarrow>
          map_option (\<lambda>p. Net6 (masked 128 p n) p) (prefix_from_prefix_string 128 m)
      | _ \<Rightarrow> None)"

text \<open>\<open>ip_network(s, strict=False)\<close> for a text that holds a slash.\<close>

definition ip_network :: "string \<Rightarrow> ipnet option" where
  "ip_network s =
     (case str_split CHR ''/'' s of
        [a, m] \<Rightarrow> (case ipv4_network a m of Some n \<Rightarrow> Some n | None \<Rightarrow> ipv6_network a m)
      | _ \<Rightarrow> None)"

lemmas ip_network_defs =
  ip_network_def ipv4_network_def ipv6_network_def prefix_from_prefix_string_def
  prefix_from_ip_string_def prefix_from_ip_int_def masked_def

declare ip_network_defs [py_eval]

text \<open>The network of exactly one address: \<open>/32\<close> or \<open>/128\<close>.\<close>

fun host_net :: "ip \<Rightarrow> ipnet" where
  "host_net (V4 a) = Net4 a 32"
| "host_net (V6 a sc) = Net6 a 128"

lemma in_host_net_V4 [simp]: "in_net (V4 a) (host_net (V4 b)) \<longleftrightarrow> a = b"
  by (simp add: masked_def)

lemma masked_idem: "masked w n (masked w n a) = masked w n a"
  by (simp add: masked_def)

lemma network_contains_base: "in_net (V4 a) (Net4 (masked 32 n a) n)"
  by simp

subsection \<open>Printing IPv4 addresses and reading them back\<close>

definition octets_of :: "int \<Rightarrow> int list" where
  "octets_of n = [n div 16777216, n div 65536 mod 256, n div 256 mod 256, n mod 256]"

definition show_ipv4 :: "int \<Rightarrow> string" where
  "show_ipv4 n = str_join CHR ''.'' (map (\<lambda>k. dec_string (nat k)) (octets_of n))"

lemma dec_string_head: "0 < n \<Longrightarrow> hd (dec_string n) \<noteq> CHR ''0''"
proof (induction n rule: dec_string.induct)
  case (1 n)
  show ?case
  proof (cases "n < 10")
    case True
    then have "char_code (digit_char n) = 48 + n" by (rule char_code_digit)
    with "1.prems" have "digit_char n \<noteq> CHR ''0''" by (auto simp: char_code_def)
    with True show ?thesis by (subst dec_string.simps) simp
  next
    case False
    then have "dec_string (n div 10) \<noteq> []"
      using all_digits_dec_string [of "n div 10"] by (simp add: all_digits_def)
    with False 1 show ?thesis by (subst dec_string.simps) simp
  qed
qed

lemma length_dec_string_octet: "n < 1000 \<Longrightarrow> length (dec_string n) \<le> 3"
  by (subst dec_string.simps, subst dec_string.simps, subst dec_string.simps) auto

lemma digit_char_0: "digit_char 0 = CHR ''0''"
  by code_simp

lemma parse_octet_dec_string:
  assumes "n < 256"
  shows "parse_octet (dec_string n) = Some (int n)"
proof -
  have "dec_string n = ''0'' \<or> hd (dec_string n) \<noteq> CHR ''0''"
  proof (cases "n = 0")
    case True
    then show ?thesis by (subst dec_string.simps) (simp add: digit_char_0)
  qed (simp add: dec_string_head)
  with assms show ?thesis
    using length_dec_string_octet [of n]
    by (auto simp: parse_octet_def all_digits_dec_string)
qed

lemma div_octets: "n div 65536 = n div 256 div 256" "n div 16777216 = n div 256 div 256 div 256"
  for n :: int
  by (simp_all flip: zdiv_zmult2_eq)

lemma int_from_octets_of: "int_from_octets (octets_of n) = n"
proof -
  have "int_from_octets (octets_of n) =
      ((n div 256 div 256 div 256 * 256 + n div 256 div 256 mod 256) * 256
        + n div 256 mod 256) * 256 + n mod 256"
    by (simp add: int_from_octets_def octets_of_def div_octets)
  also have "\<dots> = n" by (simp only: div_mult_mod_eq)
  finally show ?thesis .
qed

lemma int_div_less: "n < 2 ^ 32 \<Longrightarrow> n div 16777216 < (256 :: int)"
  by simp

lemma octets_of_range:
  assumes "0 \<le> n" and "n < 2 ^ 32" and "k \<in> set (octets_of n)"
  shows "0 \<le> k \<and> k < 256"
proof -
  have "0 \<le> n div 16777216" using assms(1) by simp
  moreover have "n div 16777216 < 256" using assms(2) by (rule int_div_less)
  ultimately show ?thesis using assms(3) by (auto simp: octets_of_def)
qed

lemma str_split_show_ipv4:
  "str_split CHR ''.'' (show_ipv4 n) = map (\<lambda>k. dec_string (nat k)) (octets_of n)"
  unfolding show_ipv4_def
proof (rule str_split_join)
  show "\<forall>p \<in> set (map (\<lambda>k. dec_string (nat k)) (octets_of n)). CHR ''.'' \<notin> set p"
    using digit_not_in_all_digits [OF all_digits_dec_string, of "CHR ''.''"]
    by (auto simp: is_digit_def char_code_def)
qed (simp add: octets_of_def)

lemma set_str_join: "set (str_join c ps) \<subseteq> insert c (\<Union> (set ` set ps))"
  by (induction c ps rule: str_join.induct) auto

lemma show_ipv4_chars:
  assumes "\<not> is_digit c" and "c \<noteq> CHR ''.''"
  shows "c \<notin> set (show_ipv4 n)"
  using set_str_join [of "CHR ''.''" "map (\<lambda>k. dec_string (nat k)) (octets_of n)"]
    digit_not_in_all_digits [OF all_digits_dec_string assms(1)] assms(2)
  by (auto simp: show_ipv4_def)

lemma those_map_Some: "those (map (\<lambda>x. Some (f x)) xs) = Some (map f xs)"
  by (induction xs) auto

lemma those_all_Some: "those (map f xs) = Some ys \<Longrightarrow> x \<in> set xs \<Longrightarrow> \<exists>y. f x = Some y"
  by (induction xs arbitrary: ys) (auto split: option.splits)

lemma ipv4_int_show:
  assumes "0 \<le> n" and "n < 2 ^ 32"
  shows "ipv4_int_from_string (show_ipv4 n) = Some n"
proof -
  have "map parse_octet (map (\<lambda>k. dec_string (nat k)) (octets_of n)) =
      map (\<lambda>k. Some (id k)) (octets_of n)"
    using octets_of_range [OF assms] by (auto simp: parse_octet_dec_string nat_less_iff)
  then have "those_octets (map (\<lambda>k. dec_string (nat k)) (octets_of n)) = Some (octets_of n)"
    by (simp only: those_octets_def those_map_Some list.map_id)
  moreover have "show_ipv4 n \<noteq> []"
    using all_digits_dec_string by (simp add: show_ipv4_def octets_of_def)
  moreover have "length (map (\<lambda>k. dec_string (nat k)) (octets_of n)) = 4"
    by (simp add: octets_of_def)
  ultimately show ?thesis
    by (simp add: ipv4_int_from_string_def str_split_show_ipv4 Let_def int_from_octets_of)
qed

lemma ipv4_address_show:
  assumes "0 \<le> n" and "n < 2 ^ 32"
  shows "ipv4_address (show_ipv4 n) = Some (V4 n)"
proof -
  have "CHR ''/'' \<notin> set (show_ipv4 n)"
    by (rule show_ipv4_chars) (simp_all add: is_digit_def char_code_def)
  then show ?thesis by (simp add: ipv4_address_def ipv4_int_show [OF assms])
qed

lemma ip_address_show_ipv4:
  "0 \<le> n \<Longrightarrow> n < 2 ^ 32 \<Longrightarrow> ip_address (show_ipv4 n) = Some (V4 n)"
  by (simp add: ip_address_def ipv4_address_show)

subsection \<open>Literals that embed an IPv4 address\<close>

lemma ipv4_address_colon: "CHR '':'' \<in> set s \<Longrightarrow> ipv4_address s = None"
proof -
  assume colon: "CHR '':'' \<in> set s"
  have "those_octets (str_split CHR ''.'' s) = None"
  proof (rule ccontr)
    assume "those_octets (str_split CHR ''.'' s) \<noteq> None"
    then have "\<forall>p \<in> set (str_split CHR ''.'' s). parse_octet p \<noteq> None"
      by (auto simp: those_octets_def dest: those_all_Some)
    then have "\<forall>p \<in> set (str_split CHR ''.'' s). CHR '':'' \<notin> set p"
      using digit_not_in_all_digits [of _ "CHR '':''"]
      by (auto simp: parse_octet_def is_digit_def char_code_def split: if_splits)
    then have "CHR '':'' \<notin> set (str_join CHR ''.'' (str_split CHR ''.'' s))"
      using set_str_join [of "CHR ''.''" "str_split CHR ''.'' s"] by auto
    with colon show False by simp
  qed
  then show ?thesis by (simp add: ipv4_address_def ipv4_int_from_string_def Let_def)
qed

end
