(* ===== verification/Host_Match.thy ===== *)
theory Host_Match
  imports Ip_Address
begin

section \<open>Host matching (proxy/host\_match.py)\<close>

text \<open>
  \<open>host_in_list\<close> and \<open>parse_ssrf_allow\<close>, the one matcher the enforcing proxy addon and the
  provision-time injector share, and \<open>_norm_authority\<close> of \<open>proxy/swap_addon.py\<close>, which
  normalises the two sides of the authority comparison. Hosts and entries are ASCII texts.
  A host that Python passes as \<open>None\<close> is the empty text, which the code itself substitutes.
\<close>

subsection \<open>Definitions\<close>

text \<open>
  \<open>[addr]\<close> or \<open>[addr]:port\<close>: the text between the brackets; anything else is unchanged.
\<close>

definition strip_brackets :: "string \<Rightarrow> string" where
  "strip_brackets h =
     (case h of
        c # t \<Rightarrow>
          if c = CHR ''['' then
            (case dropWhile (\<lambda>x. x \<noteq> CHR '']'') t of
               [] \<Rightarrow> h
             | _ # r \<Rightarrow>
                 if r = [] \<or> hd r = CHR '':'' then takeWhile (\<lambda>x. x \<noteq> CHR '']'') t else h)
          else h
      | [] \<Rightarrow> h)"

text \<open>The text the host is compared as, before the address parse.\<close>

definition norm_host :: "string \<Rightarrow> string" where
  "norm_host host =
     (let h = strip_brackets (str_lower host);
          h = (if count_list h CHR '':'' = 1 then before_char CHR '':'' h else h)
      in rstrip_char CHR ''.'' h)"

definition norm_entry :: "string \<Rightarrow> string" where
  "norm_entry entry = rstrip_char CHR ''.'' (strip_brackets (str_lower entry))"

definition entry_matches :: "ip option \<Rightarrow> string \<Rightarrow> string \<Rightarrow> bool" where
  "entry_matches h_ip h entry =
     (let e = norm_entry entry in
      case h_ip of
        Some a \<Rightarrow> ip_address e = Some a
      | None \<Rightarrow> h = e \<or> (prefix ''.'' e \<and> suffix e h))"

definition host_in_list :: "string \<Rightarrow> string list \<Rightarrow> bool" where
  "host_in_list host entries =
     (let h = norm_host host;
          h_ip = ip_address h;
          h = (if h_ip = None then before_char CHR '':'' h else h)
      in list_ex (entry_matches h_ip h) entries)"

text \<open>
  One line of the ssrf allow file: nothing, a host entry, or a network. A CIDR literal that
  does not parse is treated as a host name.
\<close>

datatype ssrf_line = Skip_Line | Host_Line string | Net_Line ipnet

definition parse_ssrf_line :: "string \<Rightarrow> ssrf_line" where
  "parse_ssrf_line raw =
     (let line = str_strip raw in
      if line = [] \<or> prefix ''#'' line then Skip_Line
      else case (if CHR ''/'' \<in> set line then ip_network line else None) of
        Some n \<Rightarrow> Net_Line n
      | None \<Rightarrow>
          (case ip_address line of
             Some a \<Rightarrow> Net_Line (host_net a)
           | None \<Rightarrow> Host_Line (str_lower line)))"

fun collect_ssrf :: "ssrf_line list \<Rightarrow> string list \<times> ipnet list" where
  "collect_ssrf [] = ([], [])"
| "collect_ssrf (l # ls) =
     (let (hosts, nets) = collect_ssrf ls in
      case l of
        Skip_Line \<Rightarrow> (hosts, nets)
      | Host_Line h \<Rightarrow> (h # hosts, nets)
      | Net_Line n \<Rightarrow> (hosts, n # nets))"

definition parse_ssrf_allow :: "string \<Rightarrow> string list \<times> ipnet list" where
  "parse_ssrf_allow text = collect_ssrf (map parse_ssrf_line (str_splitlines text))"

definition norm_authority :: "string \<Rightarrow> string" where
  "norm_authority host =
     (let h = str_strip (str_lower host);
          h = (if prefix ''['' h \<and> suffix '']'' h then butlast (tl h) else h)
      in rstrip_char CHR ''.'' h)"

declare strip_brackets_def [py_eval] norm_host_def [py_eval] norm_entry_def [py_eval]
  entry_matches_def [py_eval] host_in_list_def [py_eval] parse_ssrf_line_def [py_eval]
  parse_ssrf_allow_def [py_eval] norm_authority_def [py_eval]

subsection \<open>Lemmas\<close>

lemma host_in_list_Nil [simp]: "\<not> host_in_list h []"
  by (simp add: host_in_list_def Let_def)

lemma host_in_list_iff:
  "host_in_list h es \<longleftrightarrow>
     (\<exists>e \<in> set es. entry_matches (ip_address (norm_host h))
        (if ip_address (norm_host h) = None then before_char CHR '':'' (norm_host h)
         else norm_host h) e)"
  by (simp add: host_in_list_def Let_def list_ex_iff)

lemma host_in_list_cong: "norm_host h = norm_host h' \<Longrightarrow> host_in_list h es = host_in_list h' es"
  by (simp add: host_in_list_def)

lemma host_in_list_append [simp]:
  "host_in_list h (xs @ ys) \<longleftrightarrow> host_in_list h xs \<or> host_in_list h ys"
  by (auto simp: host_in_list_iff)

lemma host_in_list_mono: "host_in_list h xs \<Longrightarrow> set xs \<subseteq> set ys \<Longrightarrow> host_in_list h ys"
  by (auto simp: host_in_list_iff)

lemma norm_host_lower [simp]: "norm_host (str_lower h) = norm_host h"
  by (simp add: norm_host_def)

lemma norm_host_upper [simp]: "norm_host (str_upper h) = norm_host h"
  by (simp add: norm_host_def)

lemma hd_str_lower: "s \<noteq> [] \<Longrightarrow> hd (str_lower s) = lower_char (hd s)"
  by (cases s) (simp_all add: str_lower_def)

lemma strip_brackets_no_bracket: "hd h \<noteq> CHR ''['' \<Longrightarrow> strip_brackets h = h"
  by (cases h) (auto simp: strip_brackets_def)

lemma lower_bracket: "lower_char c = CHR ''['' \<longleftrightarrow> c = CHR ''[''"
  by (rule lower_char_eq_iff) (simp_all add: is_lower_ascii_def is_upper_ascii_def char_code_def)

lemma lower_dots [simp]: "str_lower (replicate n CHR ''.'') = replicate n CHR ''.''"
  by (simp add: str_lower_def lower_char_def is_upper_ascii_def char_code_def)

lemma strip_brackets_lower_id:
  assumes "h \<noteq> []" and "hd h \<noteq> CHR ''[''"
  shows "strip_brackets (str_lower h @ s) = str_lower h @ s"
proof (rule strip_brackets_no_bracket)
  have "hd (str_lower h @ s) = lower_char (hd h)"
    using assms(1) hd_str_lower [of h] by (cases h) (simp_all add: str_lower_def)
  with assms(2) show "hd (str_lower h @ s) \<noteq> CHR ''[''" by (simp add: lower_bracket)
qed

lemma before_char_append_in: "c \<in> set a \<Longrightarrow> before_char c (a @ b) = before_char c a"
  by (auto simp: before_char_def takeWhile_append1)

lemma norm_host_dots:
  assumes "h \<noteq> []" and "hd h \<noteq> CHR ''[''"
  shows "norm_host (h @ replicate n CHR ''.'') = norm_host h"
proof -
  let ?l = "str_lower h" and ?d = "replicate n CHR ''.''"
  have c: "count_list (?l @ ?d) CHR '':'' = count_list ?l CHR '':''"
    by (induction n) (simp_all add: count_list_append)
  have "norm_host h =
      rstrip_char CHR ''.'' (if count_list ?l CHR '':'' = 1 then before_char CHR '':'' ?l else ?l)"
    using strip_brackets_lower_id [OF assms, of "[]"] by (simp add: norm_host_def Let_def)
  moreover have "norm_host (h @ ?d) =
      rstrip_char CHR ''.''
        (if count_list ?l CHR '':'' = 1 then before_char CHR '':'' (?l @ ?d) else ?l @ ?d)"
    using strip_brackets_lower_id [OF assms, of ?d] by (simp add: norm_host_def Let_def c)
  moreover have "before_char CHR '':'' (?l @ ?d) = before_char CHR '':'' ?l"
    if "count_list ?l CHR '':'' = 1"
    using that by (intro before_char_append_in) (metis count_notin zero_neq_one)
  ultimately show ?thesis by simp
qed

text \<open>A single-colon host is a \<open>host:port\<close> pair: the port never takes part in the match.\<close>

lemma norm_host_port:
  assumes "h \<noteq> []" and "hd h \<noteq> CHR ''[''" and "CHR '':'' \<notin> set h" and "all_digits p"
  shows "norm_host (h @ CHR '':'' # p) = norm_host h"
proof -
  have in_lower: "CHR '':'' \<in> set (str_lower s) \<longleftrightarrow> CHR '':'' \<in> set s" for s
    by (rule in_set_str_lower)
      (simp_all add: is_lower_ascii_def is_upper_ascii_def char_code_def)
  have "CHR '':'' \<notin> set p"
    using digit_not_in_all_digits [OF assms(4), of "CHR '':''"]
    by (simp add: is_digit_def char_code_def)
  then have nc: "CHR '':'' \<notin> set (str_lower h)" and pc: "CHR '':'' \<notin> set (str_lower p)"
    using assms(3) by (simp_all only: in_lower not_False_eq_True)
  let ?l = "str_lower h" and ?t = "CHR '':'' # str_lower p"
  have "lower_char CHR '':'' = CHR '':''"
    by (simp add: lower_char_def is_upper_ascii_def char_code_def)
  then have low: "str_lower (h @ CHR '':'' # p) = ?l @ ?t"
    by (simp add: str_lower_def)
  have cnt: "count_list (?l @ ?t) CHR '':'' = 1" "count_list ?l CHR '':'' = 0"
    using nc pc by simp_all
  have "norm_host (h @ CHR '':'' # p) = rstrip_char CHR ''.'' (before_char CHR '':'' (?l @ ?t))"
    unfolding norm_host_def low strip_brackets_lower_id [OF assms(1,2)] Let_def cnt(1) by simp
  also have "\<dots> = rstrip_char CHR ''.'' ?l"
    using nc by (simp add: before_char_append)
  also have "\<dots> = norm_host h"
    unfolding norm_host_def Let_def
    using strip_brackets_lower_id [OF assms(1,2), of "[]"] cnt(2) by simp
  finally show ?thesis .
qed

text \<open>A host that is an address literal is compared as an address and only as an address.\<close>

lemma host_in_list_ip:
  assumes "ip_address (norm_host h) = Some a"
  shows "host_in_list h es \<longleftrightarrow> (\<exists>e \<in> set es. ip_address (norm_entry e) = Some a)"
  using assms by (simp add: host_in_list_iff entry_matches_def Let_def)

lemma host_in_list_name:
  assumes "ip_address (norm_host h) = None"
  shows "host_in_list h es \<longleftrightarrow>
    (\<exists>e \<in> set es. before_char CHR '':'' (norm_host h) = norm_entry e
       \<or> (prefix ''.'' (norm_entry e) \<and> suffix (norm_entry e) (before_char CHR '':'' (norm_host h))))"
  using assms by (simp add: host_in_list_iff entry_matches_def Let_def)

lemma collect_ssrf_sets:
  "set (fst (collect_ssrf ls)) = {h. Host_Line h \<in> set ls} \<and>
   set (snd (collect_ssrf ls)) = {n. Net_Line n \<in> set ls}"
proof (induction ls)
  case (Cons l ls)
  then show ?case by (cases "collect_ssrf ls"; cases l) auto
qed simp

lemma parse_ssrf_allow_empty: "parse_ssrf_allow [] = ([], [])"
  by (simp add: parse_ssrf_allow_def str_splitlines_def)

end
