(* ===== verification/Bounded_Cache.thy ===== *)
theory Bounded_Cache
  imports Py_Prelude
begin

section \<open>Bounded in-memory maps\<close>

text \<open>
  Several components keep a Python dictionary bounded: the scan caches of the proxy addon are
  cleared when full before an insertion, the resolver cache is cleared when an insertion
  overfills it, and confirmd's nonce rings and re-open index drop their oldest keys. The locale
  states what the callers rely on: an insertion never invents an entry, and the bound holds
  after every insertion. A dictionary is an association list with distinct keys, in insertion
  order.
\<close>

locale bounded_cache =
  fixes ok :: "'c \<Rightarrow> bool"
    and get :: "'c \<Rightarrow> 'k \<Rightarrow> 'v option"
    and put :: "'k \<Rightarrow> 'v \<Rightarrow> 'c \<Rightarrow> 'c"
    and used :: "'c \<Rightarrow> nat"
    and cap :: nat
  assumes ok_put: "ok c \<Longrightarrow> ok (put k v c)"
    and get_put: "ok c \<Longrightarrow> get (put k v c) k' = Some w \<Longrightarrow>
      (k' = k \<and> w = v) \<or> (k' \<noteq> k \<and> get c k' = Some w)"
    and used_put: "ok c \<Longrightarrow> used c \<le> cap \<Longrightarrow> used (put k v c) \<le> cap"
begin

lemma entries_put:
  assumes "ok c" and "\<And>k v. get c k = Some v \<Longrightarrow> P k v" and "P k v"
    and "get (put k v c) k' = Some w"
  shows "P k' w"
  using get_put [OF assms(1,4)] assms(2,3) by auto

lemma puts_bounded:
  "ok c \<Longrightarrow> used c \<le> cap \<Longrightarrow>
    ok (fold (\<lambda>(k, v). put k v) kvs c) \<and> used (fold (\<lambda>(k, v). put k v) kvs c) \<le> cap"
  by (induction kvs arbitrary: c) (auto simp: used_put ok_put)

lemma entries_puts:
  assumes "ok c" and "get (fold (\<lambda>(k, v). put k v) kvs c) k = Some w"
  shows "(k, w) \<in> set kvs \<or> get c k = Some w"
  using assms
proof (induction kvs arbitrary: c)
  case (Cons kv kvs)
  obtain k' v' where kv: "kv = (k', v')" by force
  have "(k, w) \<in> set kvs \<or> get (put k' v' c) k = Some w"
    using Cons.IH [of "put k' v' c"] Cons.prems kv by (simp add: ok_put)
  then show ?case using get_put [OF Cons.prems(1), of k' v' k w] kv by auto
qed simp

end

subsection \<open>The three disciplines\<close>

text \<open>Clear when full, then insert (the scan caches of \<open>proxy/swap_addon.py\<close>).\<close>

definition put_clearing :: "nat \<Rightarrow> 'k \<Rightarrow> 'v \<Rightarrow> ('k \<times> 'v) list \<Rightarrow> ('k \<times> 'v) list" where
  "put_clearing n k v c = assoc_put k v (if n \<le> length c then [] else c)"

text \<open>Insert, then clear when overfull (\<open>_resolve_ips\<close>).\<close>

definition put_then_clear :: "nat \<Rightarrow> 'k \<Rightarrow> 'v \<Rightarrow> ('k \<times> 'v) list \<Rightarrow> ('k \<times> 'v) list" where
  "put_then_clear n k v c =
     (let c' = assoc_put k v c in if n < length c' then [] else c')"

text \<open>Insert, then drop the oldest keys down to the cap (confirmd's rings and index).\<close>

definition put_evicting :: "nat \<Rightarrow> 'k \<Rightarrow> 'v \<Rightarrow> ('k \<times> 'v) list \<Rightarrow> ('k \<times> 'v) list" where
  "put_evicting n k v c = (let c' = assoc_put k v c in drop (length c' - n) c')"

abbreviation dict_ok :: "('k \<times> 'v) list \<Rightarrow> bool" where
  "dict_ok c \<equiv> distinct (map fst c)"

lemma map_of_drop:
  assumes "dict_ok c" and "map_of (drop n c) k = Some v"
  shows "map_of c k = Some v"
  using assms by (metis in_set_dropD map_of_SomeD map_of_eq_Some_iff)

lemma dict_ok_drop: "dict_ok c \<Longrightarrow> dict_ok (drop n c)"
  by (simp add: drop_map [symmetric])

lemma get_assoc_put:
  "map_of (assoc_put k v c) k' = Some w \<Longrightarrow> (k' = k \<and> w = v) \<or> (k' \<noteq> k \<and> map_of c k' = Some w)"
  by (auto split: if_splits)

lemma get_put_clearing:
  "map_of (put_clearing n k v c) k' = Some w \<Longrightarrow>
    (k' = k \<and> w = v) \<or> (k' \<noteq> k \<and> map_of c k' = Some w)"
  by (auto simp: put_clearing_def split: if_splits)

lemma get_put_then_clear:
  "map_of (put_then_clear n k v c) k' = Some w \<Longrightarrow>
    (k' = k \<and> w = v) \<or> (k' \<noteq> k \<and> map_of c k' = Some w)"
  using get_assoc_put [of k v c k' w] by (simp add: put_then_clear_def Let_def split: if_splits)

lemma get_put_evicting:
  assumes "dict_ok c" and "map_of (put_evicting n k v c) k' = Some w"
  shows "(k' = k \<and> w = v) \<or> (k' \<noteq> k \<and> map_of c k' = Some w)"
proof -
  have "dict_ok (assoc_put k v c)" using assms(1) by (rule distinct_assoc_put)
  then have "map_of (assoc_put k v c) k' = Some w"
    using assms(2) unfolding put_evicting_def Let_def by (rule map_of_drop)
  then show ?thesis by (rule get_assoc_put)
qed

interpretation scan_cache: bounded_cache dict_ok map_of "put_clearing 1024" length 1024
proof unfold_locales
  fix c :: "('a \<times> 'b) list" and k v
  show "length (put_clearing 1024 k v c) \<le> 1024" if "length c \<le> 1024"
    using that by (auto simp: put_clearing_def length_assoc_put)
qed (simp_all only: get_put_clearing, simp add: put_clearing_def)

interpretation dns_cache: bounded_cache dict_ok map_of "put_then_clear 1024" length 1024
proof unfold_locales
  fix c :: "('a \<times> 'b) list" and k v
  show "dict_ok (put_then_clear 1024 k v c)" if "dict_ok c"
    using that by (simp add: put_then_clear_def Let_def)
  show "length (put_then_clear 1024 k v c) \<le> 1024"
    by (simp add: put_then_clear_def Let_def)
qed (simp_all only: get_put_then_clear)

interpretation evicting: bounded_cache dict_ok map_of "put_evicting n" length n for n
proof unfold_locales
  fix c :: "('a \<times> 'b) list" and k v
  show "dict_ok (put_evicting n k v c)" if "dict_ok c"
    using that by (simp add: put_evicting_def Let_def dict_ok_drop)
  show "length (put_evicting n k v c) \<le> n"
    by (simp add: put_evicting_def Let_def)
qed (simp only: get_put_evicting)

end
