(* ===== verification/Egress_Guard.thy ===== *)
theory Egress_Guard
  imports Host_Match Bounded_Cache
begin

section \<open>The egress guard (SSRF half of proxy/swap\_addon.py)\<close>

text \<open>
  \<open>_normalize_ip\<close>, \<open>_is_private_ip\<close>, \<open>_resolve_ips\<close>, \<open>_ip_refused\<close> and the coroutine hook
  \<open>server_connect\<close>. The resolver of the host system is the parameter \<open>getaddrinfo\<close> (\<open>None\<close> for
  a failed lookup); the scan of the authority for secret values is the parameter
  \<open>authority_scan\<close>, as its result: \<open>None\<close> when the scan raises, else the names found. Times
  are integers in seconds.
\<close>

subsection \<open>Judging one address\<close>

definition private_net_texts :: "string list" where
  "private_net_texts =
     [''0.0.0.0/8'', ''10.0.0.0/8'', ''172.16.0.0/12'', ''192.168.0.0/16'',
      ''100.64.0.0/10'', ''127.0.0.0/8'', ''169.254.0.0/16'',
      ''192.0.0.0/24'', ''198.18.0.0/15'', ''224.0.0.0/4'', ''240.0.0.0/4'',
      ''::1/128'', ''fc00::/7'', ''fe80::/10'', ''ff00::/8'',
      ''2002::/16'', ''2001::/32'']"

definition private_nets :: "ipnet list" where
  "private_nets = List.map_filter ip_network private_net_texts"

definition nat64_wkp :: "ipnet" where
  "nat64_wkp = (case ip_network ''64:ff9b::/96'' of Some n \<Rightarrow> n | None \<Rightarrow> Net6 0 128)"

definition ipv4_mapped :: "ip \<Rightarrow> ip option" where
  "ipv4_mapped a =
     (case a of
        V6 n sc \<Rightarrow> if n div 2 ^ 32 = 65535 then Some (V4 (n mod 2 ^ 32)) else None
      | V4 _ \<Rightarrow> None)"

definition normalize_ip :: "string \<Rightarrow> ip option" where
  "normalize_ip s =
     (case ip_address (before_char CHR ''%'' s) of
        None \<Rightarrow> None
      | Some a \<Rightarrow>
          (case ipv4_mapped a of
             Some m \<Rightarrow> Some m
           | None \<Rightarrow>
               (case a of
                  V6 n sc \<Rightarrow> if in_net a nat64_wkp then Some (V4 (n mod 2 ^ 32)) else Some a
                | V4 _ \<Rightarrow> Some a)))"

fun is_unspecified :: "ip \<Rightarrow> bool" where
  "is_unspecified (V4 n) = (n = 0)"
| "is_unspecified (V6 n sc) = (n = 0)"

definition refused_range :: "ip \<Rightarrow> bool" where
  "refused_range a = (is_unspecified a \<or> list_ex (in_net a) private_nets)"

definition is_private_ip :: "string \<Rightarrow> bool" where
  "is_private_ip s = (case normalize_ip s of None \<Rightarrow> False | Some a \<Rightarrow> refused_range a)"

subsection \<open>The guard's configuration, state and verdict\<close>

record ssrf_config =
  deny_hosts :: "string list"
  deny_nets :: "ipnet list"
  ssrf_hosts :: "string list"
  ssrf_nets :: "ipnet list"

definition ip_refused :: "ssrf_config \<Rightarrow> string \<Rightarrow> ip \<Rightarrow> bool" where
  "ip_refused cfg host a =
     (if \<not> refused_range a then False
      else if host_in_list host (ssrf_hosts cfg) then False
      else \<not> list_ex (in_net a) (ssrf_nets cfg))"

text \<open>The resolver cache: host, expiry instant, cached answer, in insertion order.\<close>

type_synonym dns_cache = "(string \<times> int \<times> string list option) list"

definition dns_ttl :: int where "dns_ttl = 60"

definition resolve_ips ::
  "(string \<Rightarrow> string list option) \<Rightarrow> int \<Rightarrow> dns_cache \<Rightarrow> string \<Rightarrow> string list option \<times> dns_cache"
where
  "resolve_ips getaddrinfo now cache host =
     (let fresh =
        (let ips = map_option (\<lambda>is. rev (remdups (rev is))) (getaddrinfo host)
         in (ips, put_then_clear 1024 host (now + dns_ttl, ips) cache))
      in case map_of cache host of
           Some (until, ips) \<Rightarrow> if now < until then (ips, cache) else fresh
         | None \<Rightarrow> fresh)"

datatype refusal =
  Deny_List_Name | Authority_Check_Error | Authority_Secret "string list"
| Dns_Failed | Deny_List_Ip ip | Private_Range "ip option" | Pinning_Failed ip

text \<open>The loop over the resolved addresses, with the first refused one remembered.\<close>

datatype ip_scan = Denied ip | Pinnable ip | Nothing_Allowed "ip option"

fun scan_ips :: "ssrf_config \<Rightarrow> string \<Rightarrow> ip option \<Rightarrow> string list \<Rightarrow> ip_scan" where
  "scan_ips cfg host refused [] = Nothing_Allowed refused"
| "scan_ips cfg host refused (s # ss) =
     (case normalize_ip s of
        None \<Rightarrow> scan_ips cfg host refused ss
      | Some a \<Rightarrow>
          if list_ex (in_net a) (deny_nets cfg) then Denied a
          else if ip_refused cfg host a
          then scan_ips cfg host (case refused of None \<Rightarrow> Some a | Some r \<Rightarrow> Some r) ss
          else Pinnable a)"

text \<open>
  The server connection: its target, the error that kills it, and the two fields the hook
  stashes for the request hook.
\<close>

record server_conn =
  address :: "(string \<times> int) option"
  pinned :: "ip option"
  conn_error :: "refusal option"
  authority_host :: "string option"

definition refuse :: "refusal \<Rightarrow> server_conn \<Rightarrow> server_conn" where
  "refuse r srv = srv\<lparr>conn_error := Some r\<rparr>"

text \<open>
  \<open>server_connect\<close>: \<open>pin_ok\<close> says whether the assignment of the pinned address succeeds.
\<close>

definition server_connect ::
  "ssrf_config \<Rightarrow> (string \<Rightarrow> string list option) \<Rightarrow> (string \<Rightarrow> string list option) \<Rightarrow> bool
    \<Rightarrow> int \<Rightarrow> dns_cache \<Rightarrow> server_conn \<Rightarrow> server_conn \<times> dns_cache"
where
  "server_connect cfg getaddrinfo authority_scan pin_ok now cache srv =
     (case address srv of
        None \<Rightarrow> (srv, cache)
      | Some (host, port) \<Rightarrow>
          if host_in_list host (deny_hosts cfg) then (refuse Deny_List_Name srv, cache)
          else (case authority_scan host of
              None \<Rightarrow> (refuse Authority_Check_Error srv, cache)
            | Some (n # ns) \<Rightarrow> (refuse (Authority_Secret (n # ns)) srv, cache)
            | Some [] \<Rightarrow>
                let (ips, cache') = resolve_ips getaddrinfo now cache host in
                (case ips of
                   None \<Rightarrow> (refuse Dns_Failed srv, cache')
                 | Some is \<Rightarrow>
                     (case scan_ips cfg host None is of
                        Denied a \<Rightarrow> (refuse (Deny_List_Ip a) srv, cache')
                      | Nothing_Allowed r \<Rightarrow> (refuse (Private_Range r) srv, cache')
                      | Pinnable a \<Rightarrow>
                          if \<not> pin_ok then (refuse (Pinning_Failed a) srv, cache')
                          else (srv\<lparr>pinned := Some a, authority_host := Some (norm_authority host)\<rparr>,
                                cache')))))"

text \<open>
  The authority a request is checked against: the stashed one, else the request's own.
\<close>

definition swap_authority :: "server_conn \<Rightarrow> string \<Rightarrow> string \<times> ip option" where
  "swap_authority srv req_host =
     (case authority_host srv of
        Some a \<Rightarrow> if a = [] then (norm_authority req_host, None) else (a, pinned srv)
      | None \<Rightarrow> (norm_authority req_host, None))"

definition check_authority :: "server_conn \<Rightarrow> string \<Rightarrow> string \<Rightarrow> bool" where
  "check_authority srv req_host host =
     (let (authority, egress) = swap_authority srv req_host
      in authority \<noteq> [] \<and> norm_authority host = authority)"

subsection \<open>Lemmas on the address judgement\<close>

lemma private_nets_eq:
  "private_nets =
     [Net4 0 8, Net4 167772160 8, Net4 2886729728 12, Net4 3232235520 16,
      Net4 1681915904 10, Net4 2130706432 8, Net4 2851995648 16,
      Net4 3221225472 24, Net4 3323068416 15, Net4 3758096384 4, Net4 4026531840 4,
      Net6 1 128, Net6 334965454937798799971759379190646833152 7,
      Net6 338288524927261089654018896841347694592 10,
      Net6 338953138925153547590470800371487866880 8,
      Net6 42545680458834377588178886921629466624 16,
      Net6 42540488161975842760550356425300246528 32]"
  unfolding private_nets_def private_net_texts_def by (simp add: py_eval upt_rec)

lemma nat64_wkp_eq: "nat64_wkp = Net6 524413980667603649783483181312245760 96"
  unfolding nat64_wkp_def by (simp add: py_eval upt_rec)

lemma scan_ips_Pinnable:
  assumes "scan_ips cfg host r ss = Pinnable a"
  shows "(\<exists>s \<in> set ss. normalize_ip s = Some a)
    \<and> \<not> list_ex (in_net a) (deny_nets cfg) \<and> \<not> ip_refused cfg host a"
  using assms
  by (induction cfg host r ss rule: scan_ips.induct) (auto split: option.splits if_splits)

lemma ip_refused_iff:
  "ip_refused cfg host a \<longleftrightarrow> refused_range a \<and> \<not> host_in_list host (ssrf_hosts cfg)
     \<and> \<not> list_ex (in_net a) (ssrf_nets cfg)"
  by (auto simp: ip_refused_def)

lemma ip_address_embedded:
  assumes "0 \<le> n" and "n < 2 ^ 32"
  shows "ip_address (''::ffff:'' @ show_ipv4 n) = Some (V6 (281470681743360 + n) None)"
    and "ip_address (''64:ff9b::'' @ show_ipv4 n) =
      Some (V6 (524413980667603649783483181312245760 + n) None)"
proof -
  let ?q = "show_ipv4 n"
  have nc: "c \<notin> set ?q" if "c \<in> {CHR '':'', CHR ''%'', CHR ''/''}" for c
    using that by (intro show_ipv4_chars) (auto simp: is_digit_def char_code_def)
  have dot: "CHR ''.'' \<in> set ?q"
    by (simp add: show_ipv4_def octets_of_def)
  have split_q: "str_split CHR '':'' ?q = [?q]"
    using nc by (intro str_split_no_sep) simp
  have v4: "ipv4_address ?q = Some (V4 n)" by (rule ipv4_address_show [OF assms])
  have halves: "n div 65536 * 65536 + n mod 65536 = n" by simp
  have "v6_parts (''::ffff:'' @ ?q) =
      Some [Empty_Part, Empty_Part, Hextet 65535, Hextet (n div 65536), Hextet (n mod 65536)]"
    by (simp add: v6_parts_def split_q dot v4 read_part_def parse_hextet_def hex_value_def
        char_code_def hex_digits_value_def)
  moreover have "v6_parts (''64:ff9b::'' @ ?q) =
      Some [Hextet 100, Hextet 65435, Empty_Part, Hextet (n div 65536), Hextet (n mod 65536)]"
    by (simp add: v6_parts_def split_q dot v4 read_part_def parse_hextet_def hex_value_def
        char_code_def hex_digits_value_def)
  ultimately have parts:
    "ipv6_address (''::ffff:'' @ ?q) = Some (V6 (281470681743360 + n) None)"
    "ipv6_address (''64:ff9b::'' @ ?q) = Some (V6 (524413980667603649783483181312245760 + n) None)"
    using nc halves
    by (simp_all add: ipv6_address_def split_scope_id_def v6_int_from_parts_def
        inner_empties_def upt_rec algebra_simps)
  then show "ip_address (''::ffff:'' @ ?q) = Some (V6 (281470681743360 + n) None)"
    and "ip_address (''64:ff9b::'' @ ?q) = Some (V6 (524413980667603649783483181312245760 + n) None)"
    by (simp_all add: ip_address_def ipv4_address_colon)
qed

lemma normalize_ip_show:
  assumes "0 \<le> n" and "n < 2 ^ 32"
  shows "normalize_ip (show_ipv4 n) = Some (V4 n)"
    and "normalize_ip (''::ffff:'' @ show_ipv4 n) = Some (V4 n)"
    and "normalize_ip (''64:ff9b::'' @ show_ipv4 n) = Some (V4 n)"
proof -
  have np: "CHR ''%'' \<notin> set (show_ipv4 n)"
    by (rule show_ipv4_chars) (simp_all add: is_digit_def char_code_def)
  then show "normalize_ip (show_ipv4 n) = Some (V4 n)"
    by (simp add: normalize_ip_def before_char_no_sep ip_address_show_ipv4 [OF assms]
        ipv4_mapped_def)
  have "before_char CHR ''%'' (''::ffff:'' @ show_ipv4 n) = ''::ffff:'' @ show_ipv4 n"
    and "before_char CHR ''%'' (''64:ff9b::'' @ show_ipv4 n) = ''64:ff9b::'' @ show_ipv4 n"
    using np by (simp_all add: before_char_no_sep)
  moreover have "(281470681743360 + n) div 4294967296 = 65535"
    and "(524413980667603649783483181312245760 + n) div 4294967296 = 122099644659926101980610560"
    using assms by (auto intro!: int_div_pos_eq [where r = n])
  moreover have "(281470681743360 + n) mod 4294967296 = n"
    and "(524413980667603649783483181312245760 + n) mod 4294967296 = n"
    using assms int_mod_pos_eq [of "281470681743360 + n" 4294967296 65535 n]
      int_mod_pos_eq [of "524413980667603649783483181312245760 + n" 4294967296
        122099644659926101980610560 n]
    by simp_all
  ultimately show "normalize_ip (''::ffff:'' @ show_ipv4 n) = Some (V4 n)"
    and "normalize_ip (''64:ff9b::'' @ show_ipv4 n) = Some (V4 n)"
    by (simp_all only: normalize_ip_def ip_address_embedded [OF assms] option.case ip.case
        ipv4_mapped_def)
      (simp_all add: nat64_wkp_eq masked_def)
qed

subsection \<open>Properties\<close>

text \<open>
  C8: the egress guard never pins a connection to a forbidden address. If \<open>server_connect\<close>
  pins an address for a connection that had none, then the target host is on no deny-list
  entry, the authority carried no secret value, the address is one of the resolved answers
  after unwrapping, it lies in no denied network, and when it lies in a refused range (private,
  loopback, link-local, carrier, reserved, 6to4, Teredo) the operator's allow file names the
  host or a network containing it. The connection is not killed and the authority stashed for
  the request hook is that same host.
\<close>

theorem server_connect_pins_only_permitted:
  assumes "server_connect cfg gai scan pin_ok now cache srv = (srv', cache')"
    and "pinned srv = None" and "pinned srv' = Some a"
  shows "\<exists>host port ips s. address srv = Some (host, port)
    \<and> \<not> host_in_list host (deny_hosts cfg) \<and> scan host = Some []
    \<and> fst (resolve_ips gai now cache host) = Some ips \<and> s \<in> set ips \<and> normalize_ip s = Some a
    \<and> \<not> list_ex (in_net a) (deny_nets cfg)
    \<and> (refused_range a \<longrightarrow>
         host_in_list host (ssrf_hosts cfg) \<or> list_ex (in_net a) (ssrf_nets cfg))
    \<and> conn_error srv' = conn_error srv \<and> authority_host srv' = Some (norm_authority host)"
  using assms
  by (auto simp: server_connect_def refuse_def ip_refused_iff
      split: option.splits if_splits list.splits prod.splits ip_scan.splits
      dest!: scan_ips_Pinnable)

definition example_config :: ssrf_config where
  "example_config = \<lparr>deny_hosts = [''approvals.internal''], deny_nets = [Net4 1681915904 10],
     ssrf_hosts = [''nas.lan''], ssrf_nets = []\<rparr>"

definition example_conn :: "string \<Rightarrow> server_conn" where
  "example_conn host =
     \<lparr>address = Some (host, 443), pinned = None, conn_error = None, authority_host = None\<rparr>"

lemma example_connect:
  "server_connect example_config (\<lambda>_. Some [''192.168.1.4'']) (\<lambda>_. Some []) True 0 []
     (example_conn ''nas.lan'') =
   ((example_conn ''nas.lan'')\<lparr>pinned := Some (V4 3232235780), authority_host := Some ''nas.lan''\<rparr>,
    [(''nas.lan'', 60, Some [''192.168.1.4''])])"
  by (simp add: server_connect_def example_config_def example_conn_def resolve_ips_def dns_ttl_def put_then_clear_def
      normalize_ip_def ipv4_mapped_def ip_refused_def refused_range_def private_nets_eq
      nat64_wkp_eq py_eval upt_rec Let_def)

theorem server_connect_pins_only_permitted_witness:
  "refused_range (V4 3232235780) \<and> host_in_list ''nas.lan'' (ssrf_hosts example_config)
    \<and> \<not> host_in_list ''nas.lan'' (deny_hosts example_config)
    \<and> \<not> list_ex (in_net (V4 3232235780)) (deny_nets example_config)"
proof -
  have "refused_range (V4 3232235780)"
    by (simp add: refused_range_def private_nets_eq masked_def)
  then show ?thesis
    using server_connect_pins_only_permitted [OF example_connect, of "V4 3232235780"]
    by (auto simp: example_conn_def example_config_def)
qed

text \<open>
  C22: the guard fails closed. For a connection that has a target, every run of
  \<open>server_connect\<close> ends in exactly one of two ways: the address is pinned and the connection
  lives, or the connection carries an error that kills it. There is no third outcome in which
  the proxy would resolve and connect on its own.
\<close>

theorem server_connect_fail_closed:
  assumes "address srv = Some target" and "pinned srv = None" and "conn_error srv = None"
  shows "(pinned (fst (server_connect cfg gai scan pin_ok now cache srv)) \<noteq> None) \<longleftrightarrow>
    conn_error (fst (server_connect cfg gai scan pin_ok now cache srv)) = None"
  using assms
  by (cases target)
    (auto simp: server_connect_def refuse_def split: option.splits list.splits prod.splits
      ip_scan.splits)

theorem server_connect_fail_closed_witness:
  "conn_error (fst (server_connect example_config (\<lambda>_. None) (\<lambda>_. Some []) True 0 []
     (example_conn ''nas.lan''))) \<noteq> None"
proof -
  have "pinned (fst (server_connect example_config (\<lambda>_. None) (\<lambda>_. Some []) True 0 []
     (example_conn ''nas.lan''))) = None"
    by (auto simp: server_connect_def example_conn_def refuse_def resolve_ips_def Let_def
        split: option.splits)
  then show ?thesis
    using server_connect_fail_closed [of "example_conn ''nas.lan''" "(''nas.lan'', 443)"
        example_config "\<lambda>_. None" "\<lambda>_. Some []" True 0 "[]"]
    by (simp add: example_conn_def)
qed

text \<open>
  C23: embedding an IPv4 address in an IPv6 literal changes no verdict. For every IPv4 address,
  the dotted literal, its IPv4-mapped form \<open>::ffff:a.b.c.d\<close> and its NAT64 form
  \<open>64:ff9b::a.b.c.d\<close> parse to the same judged address, so \<open>_is_private_ip\<close> agrees on the three.
\<close>

theorem embedded_ipv4_same_verdict:
  assumes "0 \<le> n" and "n < 2 ^ 32"
  shows "is_private_ip (''::ffff:'' @ show_ipv4 n) = is_private_ip (show_ipv4 n)
    \<and> is_private_ip (''64:ff9b::'' @ show_ipv4 n) = is_private_ip (show_ipv4 n)
    \<and> is_private_ip (show_ipv4 n) = refused_range (V4 n)"
  by (simp_all only: is_private_ip_def normalize_ip_show [OF assms] option.case)

theorem embedded_ipv4_same_verdict_witness:
  "is_private_ip (''::ffff:'' @ show_ipv4 2130706433) \<and>
   is_private_ip (''64:ff9b::'' @ show_ipv4 2130706433)"
  using embedded_ipv4_same_verdict [of 2130706433]
  by (simp add: refused_range_def private_nets_eq masked_def)

end
