(* ===== verification/Path_Scope.thy ===== *)
theory Path_Scope
  imports Ip_Address
begin

section \<open>Path normalisation and prefix scoping (proxy/swap\_addon.py)\<close>

text \<open>
  \<open>_normalize_path\<close> and \<open>_path_allowed\<close>, with the standard-library functions they call:
  \<open>urllib.parse.urlsplit\<close> (the path of a URL, as Python 3.12 computes it), \<open>urllib.parse.unquote\<close>
  (percent-decoding, UTF-8 with replacement of invalid sequences) and \<open>posixpath.normpath\<close>.
  A text is the list of its UTF-8 bytes. Network locations are ASCII, so the Unicode
  normalisation check of \<open>urlsplit\<close> never fires.
\<close>

subsection \<open>The path of a URL\<close>

definition is_alpha_ascii :: "char \<Rightarrow> bool" where
  "is_alpha_ascii c = (is_upper_ascii c \<or> is_lower_ascii c)"

definition scheme_char :: "char \<Rightarrow> bool" where
  "scheme_char c = (is_alnum_ascii c \<or> c = CHR ''+'' \<or> c = CHR ''-'' \<or> c = CHR ''.'')"

text \<open>The bracketed host of a network location: an IPv6 or a future literal.\<close>

definition bracketed_host_ok :: "string \<Rightarrow> bool" where
  "bracketed_host_ok h =
     (if prefix ''v'' h then
        (let hex = takeWhile (\<lambda>c. hex_value c \<noteq> None) (tl h);
             rest = dropWhile (\<lambda>c. hex_value c \<noteq> None) (tl h)
         in hex \<noteq> [] \<and> prefix ''.'' rest \<and> tl rest \<noteq> [])
      else case ip_address h of Some (V6 n sc) \<Rightarrow> True | _ \<Rightarrow> False)"

definition netloc_ok :: "string \<Rightarrow> bool" where
  "netloc_ok loc =
     (let opens = CHR ''['' \<in> set loc; closes = CHR '']'' \<in> set loc
      in opens = closes \<and>
         (opens \<longrightarrow> bracketed_host_ok
            (before_char CHR '']'' (tl (dropWhile (\<lambda>c. c \<noteq> CHR ''['') loc)))))"

definition strip_scheme :: "string \<Rightarrow> string" where
  "strip_scheme url =
     (if CHR '':'' \<in> set url \<and> is_alpha_ascii (hd url)
         \<and> list_all scheme_char (before_char CHR '':'' url)
      then tl (dropWhile (\<lambda>c. c \<noteq> CHR '':'') url) else url)"

text \<open>\<open>urlsplit(raw).path\<close>; \<open>None\<close> when it raises.\<close>

definition urlsplit_path :: "string \<Rightarrow> string option" where
  "urlsplit_path raw =
     (let url = dropWhile (\<lambda>c. char_code c \<le> 32) raw;
          url = filter (\<lambda>c. char_code c \<notin> {9, 10, 13}) url;
          url = strip_scheme url;
          cut = (\<lambda>u. before_char CHR ''?'' (before_char CHR ''#'' u))
      in if prefix ''//'' url then
           (let after = drop 2 url;
                is_delim = (\<lambda>c. c = CHR ''/'' \<or> c = CHR ''?'' \<or> c = CHR ''#'')
            in if netloc_ok (takeWhile (\<lambda>c. \<not> is_delim c) after)
               then Some (cut (dropWhile (\<lambda>c. \<not> is_delim c) after)) else None)
         else Some (cut url))"

subsection \<open>Percent decoding\<close>

text \<open>\<open>unquote_to_bytes\<close>: a percent sign and two hexadecimal digits stand for a byte.\<close>

definition pct_triple :: "char \<Rightarrow> char \<Rightarrow> char \<Rightarrow> char option" where
  "pct_triple c x y =
     (if c = CHR ''%'' then
        (case hex_value x of
           None \<Rightarrow> None
         | Some a \<Rightarrow> map_option (\<lambda>b. char_of (16 * a + b)) (hex_value y))
      else None)"

fun pct_bytes :: "string \<Rightarrow> string" where
  "pct_bytes (c # x # y # s) =
     (case pct_triple c x y of
        Some b \<Rightarrow> b # pct_bytes s
      | None \<Rightarrow> c # pct_bytes (x # y # s))"
| "pct_bytes s = s"

text \<open>
  The UTF-8 decoder with \<open>errors='replace'\<close>, bytes to bytes: for a lead byte the ranges its
  continuation bytes must lie in; a sequence that breaks off early is replaced, up to the
  break, by one U+FFFD.
\<close>

definition lead_ranges :: "nat \<Rightarrow> (nat \<times> nat) list option" where
  "lead_ranges n =
     (if n < 128 then Some []
      else if n < 194 then None
      else if n < 224 then Some [(128, 191)]
      else if n = 224 then Some [(160, 191), (128, 191)]
      else if n = 237 then Some [(128, 159), (128, 191)]
      else if n < 240 then Some [(128, 191), (128, 191)]
      else if n = 240 then Some [(144, 191), (128, 191), (128, 191)]
      else if n < 244 then Some [(128, 191), (128, 191), (128, 191)]
      else if n = 244 then Some [(128, 143), (128, 191), (128, 191)]
      else None)"

fun good_conts :: "(nat \<times> nat) list \<Rightarrow> string \<Rightarrow> nat" where
  "good_conts ((lo, hi) # rs) (b # bs) =
     (if lo \<le> char_code b \<and> char_code b \<le> hi then Suc (good_conts rs bs) else 0)"
| "good_conts _ _ = 0"

definition replacement_bytes :: string where
  "replacement_bytes = [CHR 0xEF, CHR 0xBF, CHR 0xBD]"

function utf8_replace :: "string \<Rightarrow> string" where
  "utf8_replace [] = []"
| "utf8_replace (b # bs) =
     (case lead_ranges (char_code b) of
        None \<Rightarrow> replacement_bytes @ utf8_replace bs
      | Some rs \<Rightarrow>
          let k = good_conts rs bs in
          (if k = length rs then b # take k bs else replacement_bytes) @ utf8_replace (drop k bs))"
  by pat_completeness auto
termination
  by (relation "measure length") auto

definition is_ascii :: "char \<Rightarrow> bool" where
  "is_ascii c = (char_code c < 128)"

text \<open>\<open>unquote\<close> decodes each maximal run of ASCII characters on its own.\<close>

function unquote_runs :: "string \<Rightarrow> string" where
  "unquote_runs [] = []"
| "unquote_runs (c # s) =
     (if is_ascii c
      then utf8_replace (pct_bytes (takeWhile is_ascii (c # s)))
        @ unquote_runs (dropWhile is_ascii (c # s))
      else c # unquote_runs s)"
  by pat_completeness auto
termination
  by (relation "measure length") (auto simp: le_imp_less_Suc length_dropWhile_le)

definition unquote :: "string \<Rightarrow> string" where
  "unquote s = (if CHR ''%'' \<in> set s then unquote_runs s else s)"

subsection \<open>The decoding loop ends\<close>

text \<open>
  The loop \<open>while p != prev: prev, p = p, unquote(p)\<close> stops because a pass that changes the
  text removes a percent sign, or keeps their number and shortens the text.
\<close>

abbreviation pcts :: "string \<Rightarrow> nat" where
  "pcts s \<equiv> count_list s CHR ''%''"

lemma hex_value_less: "hex_value c = Some n \<Longrightarrow> n < 16"
  by (auto simp: hex_value_def Let_def split: if_splits)

lemma ascii_pct [simp]: "is_ascii CHR ''%''"
  by (simp add: is_ascii_def char_code_def)

fun decodable :: "string \<Rightarrow> bool" where
  "decodable (c # x # y # s) =
     (pct_triple c x y \<noteq> None \<or> decodable (x # y # s))"
| "decodable s = False"

definition shrinks :: "string \<Rightarrow> string \<Rightarrow> bool" where
  "shrinks s' s = (pcts s' < pcts s \<or> (pcts s' = pcts s \<and> length s' < length s))"

lemma hex_ascii: "hex_value c = Some n \<Longrightarrow> is_ascii c"
  by (auto simp: hex_value_def is_ascii_def Let_def split: if_splits)

lemma hex_not_pct: "hex_value CHR ''%'' = None"
  by (simp add: hex_value_def char_code_def)

lemma pct_triple_SomeD:
  assumes "pct_triple c x y = Some b"
  shows "c = CHR ''%''" and "is_ascii x" and "is_ascii y"
    and "x \<noteq> CHR ''%''" and "y \<noteq> CHR ''%''"
  using assms hex_not_pct
  by (auto simp: pct_triple_def split: if_splits option.splits dest: hex_ascii)

lemma pct_bytes_length: "length (pct_bytes s) \<le> length s"
  by (induction s rule: pct_bytes.induct) (auto split: option.splits)

lemma pct_bytes_pcts: "pcts (pct_bytes s) \<le> pcts s"
proof (induction s rule: pct_bytes.induct)
  case (1 c x y s)
  then show ?case
    by (cases "pct_triple c x y") (auto dest!: pct_triple_SomeD(1))
qed auto

text \<open>One pass over an ASCII run: nothing to decode, or fewer percent signs, or shorter.\<close>

lemma pct_bytes_cases:
  assumes "list_all is_ascii s"
  shows "(pct_bytes s = s \<and> \<not> decodable s) \<or> pcts (pct_bytes s) < pcts s
    \<or> (pcts (pct_bytes s) = pcts s \<and> length (pct_bytes s) < length s
        \<and> list_all is_ascii (pct_bytes s))"
  using assms
proof (induction s rule: pct_bytes.induct)
  case (1 c x y s)
  show ?case
  proof (cases "pct_triple c x y")
    case (Some b)
    note xy = pct_triple_SomeD [OF Some]
    have len: "length (pct_bytes s) \<le> length s" and le: "pcts (pct_bytes s) \<le> pcts s"
      by (rule pct_bytes_length, rule pct_bytes_pcts)
    show ?thesis
    proof (cases "b = CHR ''%'' \<and> pcts (pct_bytes s) = pcts s")
      case pc: True
      have "list_all is_ascii (pct_bytes s)"
        using "1.IH"(2) [OF Some] "1.prems" pc by auto
      then show ?thesis using pc Some xy len by simp
    next
      case False
      then show ?thesis using Some xy le by auto
    qed
  next
    case None
    then show ?thesis using "1.IH"(1) [OF None] "1.prems" by auto
  qed
qed simp_all

lemma good_conts_high: "c \<in> set (take (good_conts rs bs) bs) \<Longrightarrow>
  (\<forall>(lo, hi) \<in> set rs. 128 \<le> lo) \<Longrightarrow> \<not> is_ascii c"
  by (induction rs bs rule: good_conts.induct) (auto simp: is_ascii_def split: if_splits)

lemma lead_ranges_high: "lead_ranges n = Some rs \<Longrightarrow> \<forall>(lo, hi) \<in> set rs. 128 \<le> lo"
  by (auto simp: lead_ranges_def split: if_splits)

lemma pcts_replacement [simp]: "pcts (replacement_bytes @ s) = pcts s"
  by (simp add: replacement_bytes_def)

lemma utf8_replace_pcts: "pcts (utf8_replace s) \<le> pcts s"
proof (induction s rule: utf8_replace.induct)
  case (2 b bs)
  show ?case
  proof (cases "lead_ranges (char_code b)")
    case None
    with 2(1) have "pcts (utf8_replace bs) \<le> pcts bs" by simp
    with None show ?thesis by (simp add: le_SucI del: count_list_append)
  next
    case (Some rs)
    let ?k = "good_conts rs bs"
    have "pcts (take ?k bs) + pcts (drop ?k bs) = pcts bs"
      by (metis append_take_drop_id count_list_append)
    moreover have "pcts (utf8_replace (drop ?k bs)) \<le> pcts (drop ?k bs)"
      using 2(2) [OF Some refl] .
    moreover have "pcts replacement_bytes = 0" by (simp add: replacement_bytes_def)
    ultimately show ?thesis
      using Some
      by (cases "good_conts rs bs = length rs") (simp_all add: Let_def count_list_append)
  qed
qed simp

lemma utf8_replace_ascii: "list_all is_ascii s \<Longrightarrow> utf8_replace s = s"
  by (induction s) (auto simp: is_ascii_def lead_ranges_def)

lemma decodable_append_run:
  assumes "decodable (run @ rest)" and "rest = [] \<or> \<not> is_ascii (hd rest)"
  shows "decodable run \<or> decodable rest"
  using assms(1)
proof (induction run)
  case (Cons c run)
  show ?case
  proof (cases "decodable (run @ rest)")
    case True
    then have "decodable run \<or> decodable rest" by (rule Cons.IH)
    then show ?thesis by (cases run; cases "tl run") auto
  next
    case False
    then obtain x y t where xy: "run @ rest = x # y # t" "pct_triple c x y \<noteq> None"
      using Cons.prems by (cases "run @ rest"; cases "tl (run @ rest)") auto
    then have "is_ascii x" "is_ascii y" using pct_triple_SomeD by auto
    with xy(1) assms(2) obtain t' where "run = x # y # t'"
      by (cases run; cases "tl run") auto
    with xy show ?thesis by simp
  qed
qed simp

lemma unquote_runs_cases:
  "(unquote_runs s = s \<and> \<not> decodable s) \<or> shrinks (unquote_runs s) s"
proof (induction s rule: unquote_runs.induct)
  case (2 c s)
  show ?case
  proof (cases "is_ascii c")
    case True
    define run rest where "run = takeWhile is_ascii (c # s)" and "rest = dropWhile is_ascii (c # s)"
    have eq: "c # s = run @ rest" by (simp add: run_def rest_def)
    have run: "list_all is_ascii run"
      unfolding run_def list_all_iff by (auto dest: set_takeWhileD)
    have hd_rest: "rest = [] \<or> \<not> is_ascii (hd rest)"
      using hd_dropWhile [of is_ascii "c # s"] unfolding rest_def by blast
    have step: "unquote_runs (c # s) = utf8_replace (pct_bytes run) @ unquote_runs rest"
      using True by (simp add: run_def rest_def)
    have le: "pcts (utf8_replace (pct_bytes run)) \<le> pcts (pct_bytes run)"
      by (rule utf8_replace_pcts)
    have IH: "(unquote_runs rest = rest \<and> \<not> decodable rest) \<or> shrinks (unquote_runs rest) rest"
      using 2(1) [OF True] by (simp add: rest_def)
    have head: "(utf8_replace (pct_bytes run) = run \<and> \<not> decodable run)
        \<or> shrinks (utf8_replace (pct_bytes run)) run"
      using pct_bytes_cases [OF run] le utf8_replace_ascii run
      by (auto simp: shrinks_def)
    have "(u @ v = run @ rest \<and> \<not> decodable (run @ rest)) \<or> shrinks (u @ v) (run @ rest)"
      if "(u = run \<and> \<not> decodable run) \<or> shrinks u run"
        and "(v = rest \<and> \<not> decodable rest) \<or> shrinks v rest" for u v
      using that decodable_append_run [OF _ hd_rest, of run]
      by (auto simp: shrinks_def count_list_append)
    from this [OF head IH] show ?thesis by (simp only: step flip: eq)
  next
    case False
    then have nc: "c \<noteq> CHR ''%''" by auto
    then have "decodable (c # s) \<longleftrightarrow> decodable s"
      by (cases s; cases "tl s") (auto simp: pct_triple_def)
    then show ?thesis using 2(2) [OF False] False nc by (auto simp: shrinks_def)
  qed
qed simp

lemma decodable_pct: "decodable s \<Longrightarrow> CHR ''%'' \<in> set s"
  by (induction s rule: decodable.induct) (auto dest: pct_triple_SomeD(1))

lemma unquote_cases: "(unquote s = s \<and> \<not> decodable s) \<or> shrinks (unquote s) s"
  using unquote_runs_cases [of s] decodable_pct [of s] by (auto simp: unquote_def)

function unquote_fixpoint :: "string \<Rightarrow> string" where
  "unquote_fixpoint p = (if unquote p = p then p else unquote_fixpoint (unquote p))"
  by pat_completeness auto
termination
proof (relation "measures [pcts, length]")
  fix p assume "unquote p \<noteq> p"
  then show "(unquote p, p) \<in> measures [pcts, length]"
    using unquote_cases [of p] by (auto simp: shrinks_def)
qed simp

declare unquote_fixpoint.simps [simp del]

lemma unquote_fixpoint_decoded: "\<not> decodable (unquote_fixpoint p)"
proof (induction p rule: unquote_fixpoint.induct)
  case (1 p)
  show ?case
  proof (cases "unquote p = p")
    case True
    then have "\<not> decodable p" using unquote_cases [of p] by (auto simp: shrinks_def)
    with True show ?thesis by (subst unquote_fixpoint.simps) simp
  next
    case False
    with 1 show ?thesis by (subst unquote_fixpoint.simps) simp
  qed
qed

subsection \<open>Dot-segment normalisation and the prefix match\<close>

text \<open>The component loop of \<open>posixpath.normpath\<close>; the accumulator is \<open>new_comps\<close> reversed.\<close>

fun norm_comps :: "bool \<Rightarrow> string list \<Rightarrow> string list \<Rightarrow> string list" where
  "norm_comps rooted acc [] = rev acc"
| "norm_comps rooted acc (c # cs) =
     (if c = [] \<or> c = ''.'' then norm_comps rooted acc cs
      else if c \<noteq> ''..'' \<or> (\<not> rooted \<and> acc = []) \<or> (acc \<noteq> [] \<and> hd acc = ''..'')
      then norm_comps rooted (c # acc) cs
      else norm_comps rooted (tl acc) cs)"

definition normpath :: "string \<Rightarrow> string" where
  "normpath p =
     (if p = [] then ''.''
      else let k = (if \<not> prefix ''/'' p then 0
                    else if prefix ''//'' p \<and> \<not> prefix ''///'' p then 2 else 1);
               out = replicate k CHR ''/''
                 @ str_join CHR ''/'' (norm_comps (0 < k) [] (str_split CHR ''/'' p))
           in if out = [] then ''.'' else out)"

definition normalize_path :: "string \<Rightarrow> string" where
  "normalize_path raw =
     (let p = (case urlsplit_path raw of Some p \<Rightarrow> p | None \<Rightarrow> raw);
          p = unquote_fixpoint p;
          p = (if prefix ''/'' p then p else CHR ''/'' # p);
          q = normpath p
      in if q = [] then ''/'' else q)"

definition path_allowed :: "string \<Rightarrow> string list \<Rightarrow> bool" where
  "path_allowed norm_path allowed =
     list_ex (\<lambda>pre.
        let pp = normalize_path pre in
        norm_path = pp \<or> prefix (rstrip_char CHR ''/'' pp @ ''/'') norm_path) allowed"

text \<open>The segments of a path: what lies between its slashes.\<close>

definition segments :: "string \<Rightarrow> string list" where
  "segments p = filter (\<lambda>c. c \<noteq> []) (str_split CHR ''/'' p)"

definition proper_segment :: "string \<Rightarrow> bool" where
  "proper_segment c = (c \<noteq> [] \<and> c \<noteq> ''.'' \<and> c \<noteq> ''..'' \<and> CHR ''/'' \<notin> set c)"

subsection \<open>Lemmas on normalised paths\<close>

lemma set_tl_subset: "set (tl xs) \<subseteq> set xs"
  by (cases xs) auto

lemma norm_comps_proper:
  assumes "list_all proper_segment acc" and "\<forall>c \<in> set cs. CHR ''/'' \<notin> set c"
  shows "list_all proper_segment (norm_comps True acc cs)
    \<and> set (norm_comps True acc cs) \<subseteq> set acc \<union> set cs"
  using assms
proof (induction cs arbitrary: acc)
  case (Cons c cs)
  have tl2: "set (tl acc) \<subseteq> set acc" by (rule set_tl_subset)
  then have tl1: "list_all proper_segment (tl acc)"
    using Cons.prems(1) by (auto simp: list_all_iff)
  note tl = tl1 tl2
  have hd: "hd acc \<noteq> ''..''" if "acc \<noteq> []"
    using Cons.prems(1) hd_in_set [OF that] by (auto simp: list_all_iff proper_segment_def)
  have cs: "\<forall>c \<in> set cs. CHR ''/'' \<notin> set c" using Cons.prems(2) by simp
  consider "c = [] \<or> c = ''.''" | "c = ''..''" | "proper_segment c"
    using Cons.prems(2) by (auto simp: proper_segment_def)
  then show ?case
  proof cases
    case 1
    then have "norm_comps True acc (c # cs) = norm_comps True acc cs" by simp
    with Cons.IH [OF Cons.prems(1) cs] show ?thesis by auto
  next
    case 2
    then have "norm_comps True acc (c # cs) = norm_comps True (tl acc) cs" using hd by auto
    with Cons.IH [OF tl(1) cs] tl(2) show ?thesis by auto
  next
    case 3
    then have "norm_comps True acc (c # cs) = norm_comps True (c # acc) cs"
      by (simp add: proper_segment_def)
    with Cons.IH [of "c # acc"] Cons.prems(1) 3 cs show ?thesis by auto
  qed
qed (simp add: list_all_iff)

lemma str_split_join_segments:
  assumes "list_all proper_segment cs"
  shows "segments (replicate k CHR ''/'' @ str_join CHR ''/'' cs) = cs"
proof (induction k)
  case 0
  show ?case
  proof (cases "cs = []")
    case False
    then have "str_split CHR ''/'' (str_join CHR ''/'' cs) = cs"
      using assms by (intro str_split_join) (auto simp: list_all_iff proper_segment_def)
    moreover have "filter (\<lambda>c. c \<noteq> []) cs = cs"
      using assms by (auto simp: list_all_iff proper_segment_def filter_id_conv)
    ultimately show ?thesis by (simp add: segments_def)
  qed (simp add: segments_def)
qed (simp add: segments_def)

lemma decodable_Cons: "decodable s \<Longrightarrow> decodable (c # s)"
  by (cases s; cases "tl s") auto

lemma decodable_append1: "decodable s \<Longrightarrow> decodable (a @ s)"
  by (induction a) (auto intro: decodable_Cons)

lemma decodable_append2: "decodable s \<Longrightarrow> decodable (s @ b)"
  by (induction s rule: decodable.induct) auto

lemma decodable_slash: "decodable (CHR ''/'' # s) \<longleftrightarrow> decodable s"
  by (cases s; cases "tl s") (auto simp: pct_triple_def)

lemma decodable_split:
  assumes "c \<in> set (str_split CHR ''/'' s)" and "decodable c"
  shows "decodable s"
  using assms(1)
proof (induction s)
  case (Cons x s)
  show ?case
  proof (cases "x = CHR ''/''")
    case True
    with Cons assms(2) show ?thesis by (auto simp: decodable_slash)
  next
    case False
    then obtain y ys where ys: "str_split CHR ''/'' s = y # ys" "c = x # y \<or> c \<in> set ys"
      using Cons.prems by (cases "str_split CHR ''/'' s") auto
    show ?thesis
    proof (cases "c \<in> set ys")
      case True
      with Cons.IH ys(1) show ?thesis by (auto intro: decodable_Cons)
    next
      case False
      then have "c = x # y" using ys(2) by simp
      moreover have "prefix y s"
        using str_join_split [of "CHR ''/''" s] ys(1)
        by (cases ys) (auto simp: prefix_def)
      ultimately show ?thesis
        using assms(2) decodable_append2 [of "x # y"] by (auto simp: prefix_def)
    qed
  qed
qed (use assms(2) in simp)

text \<open>
  The shape of a normalised path: one or two slashes, then proper segments, none of which can
  be decoded any further.
\<close>

lemma normalize_path_shape:
  obtains k cs where "normalize_path raw = replicate k CHR ''/'' @ str_join CHR ''/'' cs"
    and "k = 1 \<or> k = 2" and "list_all proper_segment cs"
    and "\<forall>c \<in> set cs. \<not> decodable c"
proof -
  define p where "p = unquote_fixpoint (case urlsplit_path raw of Some p \<Rightarrow> p | None \<Rightarrow> raw)"
  define q where "q = (if prefix ''/'' p then p else CHR ''/'' # p)"
  define k :: nat where "k = (if prefix ''//'' q \<and> \<not> prefix ''///'' q then 2 else 1)"
  define cs where "cs = norm_comps True [] (str_split CHR ''/'' q)"
  have q: "prefix ''/'' q" by (auto simp: q_def)
  have "k = 1 \<or> k = 2" and k0: "0 < k" by (auto simp: k_def)
  have split: "\<forall>c \<in> set (str_split CHR ''/'' q). CHR ''/'' \<notin> set c"
    by (auto dest: str_split_parts)
  have cs: "list_all proper_segment cs" "set cs \<subseteq> set (str_split CHR ''/'' q)"
    using norm_comps_proper [of "[]", OF _ split] by (auto simp: cs_def)
  have "\<not> decodable q"
    using unquote_fixpoint_decoded [of "case urlsplit_path raw of Some p \<Rightarrow> p | None \<Rightarrow> raw"]
    by (auto simp: q_def p_def decodable_slash)
  then have "\<forall>c \<in> set (str_split CHR ''/'' q). \<not> decodable c"
    using decodable_split [of _ q] by blast
  then have dec: "\<forall>c \<in> set cs. \<not> decodable c" using cs(2) by blast
  have "normpath q = replicate k CHR ''/'' @ str_join CHR ''/'' cs"
    using q k0 unfolding normpath_def
    by (auto simp: k_def cs_def Let_def)
  moreover have "normalize_path raw = normpath q"
    using calculation k0 by (auto simp: normalize_path_def p_def q_def Let_def)
  ultimately show ?thesis using that \<open>k = 1 \<or> k = 2\<close> cs(1) dec by simp
qed

lemma segments_append: "segments (a @ CHR ''/'' # b) = segments a @ segments b"
  by (simp add: segments_def str_split_append_sep)

lemma segments_slashes: "segments (a @ replicate n CHR ''/'') = segments a"
proof (induction n arbitrary: a)
  case (Suc n)
  have "segments (a @ replicate (Suc n) CHR ''/'') = segments a @ segments (replicate n CHR ''/'')"
    by (simp add: segments_append)
  also have "segments (replicate n CHR ''/'') = []"
    using Suc.IH [of "[]"] by (simp add: segments_def)
  finally show ?case by simp
qed simp

lemma segments_rstrip: "segments (rstrip_char CHR ''/'' p) = segments p"
  using rstrip_char_decomp [of p "CHR ''/''"] segments_slashes by metis

lemma segments_normalize_path:
  "list_all proper_segment (segments (normalize_path raw))
   \<and> (\<forall>c \<in> set (segments (normalize_path raw)). \<not> decodable c)"
  by (rule normalize_path_shape [of raw]) (simp add: str_split_join_segments)

lemma path_allowed_iff:
  "path_allowed np allowed \<longleftrightarrow> (\<exists>pre \<in> set allowed. np = normalize_path pre
     \<or> prefix (rstrip_char CHR ''/'' (normalize_path pre) @ ''/'') np)"
  by (simp add: path_allowed_def list_ex_iff Let_def)

lemma path_allowed_Nil [simp]: "\<not> path_allowed np []"
  by (simp add: path_allowed_def)

lemma unquote_fixpoint_step: "unquote p = q \<Longrightarrow> unquote q = q \<Longrightarrow> unquote_fixpoint p = q"
  by (metis unquote_fixpoint.simps)

lemma normalize_path_evalI:
  assumes "urlsplit_path raw = Some p" and "unquote p = q" and "unquote q = q"
    and "prefix ''/'' q" and "normpath q = r" and "r \<noteq> []"
  shows "normalize_path raw = r"
  using assms unquote_fixpoint_step [of p q] by (simp add: normalize_path_def)

lemmas path_eval =
  urlsplit_path_def strip_scheme_def netloc_ok_def bracketed_host_ok_def unquote_def
  is_alpha_ascii_def scheme_char_def is_ascii_def pct_triple_def lead_ranges_def normpath_def
  py_eval char_of_def bit_iff_odd

subsection \<open>Properties\<close>

text \<open>
  C21: the prefix match is segment-aligned and cannot be escaped. A request path that passes
  \<open>_path_allowed\<close> has one of the allowed prefixes such that the segments of the normalised
  prefix begin the segments of the normalised request path. The segments compared hold no empty,
  \<open>.\<close> or \<open>..\<close> segment and no percent-encoded byte that a server could decode once more.
\<close>

theorem path_allowed_segment_aligned:
  assumes "path_allowed (normalize_path raw) allowed"
  shows "\<exists>pre \<in> set allowed.
      prefix (segments (normalize_path pre)) (segments (normalize_path raw))
    \<and> list_all proper_segment (segments (normalize_path raw))
    \<and> (\<forall>c \<in> set (segments (normalize_path raw)). \<not> decodable c)"
proof -
  obtain pre where pre: "pre \<in> set allowed"
    and cases: "normalize_path raw = normalize_path pre
      \<or> prefix (rstrip_char CHR ''/'' (normalize_path pre) @ ''/'') (normalize_path raw)"
    using assms by (auto simp: path_allowed_iff)
  from cases have "prefix (segments (normalize_path pre)) (segments (normalize_path raw))"
  proof
    assume "prefix (rstrip_char CHR ''/'' (normalize_path pre) @ ''/'') (normalize_path raw)"
    then obtain r where
      "normalize_path raw = rstrip_char CHR ''/'' (normalize_path pre) @ CHR ''/'' # r"
      by (auto simp: prefix_def)
    then show ?thesis by (simp add: segments_append segments_rstrip)
  qed simp
  with pre segments_normalize_path show ?thesis by blast
qed

theorem path_allowed_segment_aligned_witness:
  "path_allowed (normalize_path ''/repos/%2e%2e/repos/x'') [''/repos/'']
   \<and> \<not> path_allowed (normalize_path ''/repos/%252e%252e/admin'') [''/repos/'']
   \<and> prefix (segments (normalize_path ''/repos/''))
       (segments (normalize_path ''/repos/%2e%2e/repos/x''))"
proof -
  have np: "normalize_path ''/repos/%2e%2e/repos/x'' = ''/repos/x''"
    by (rule normalize_path_evalI
        [where p = "''/repos/%2e%2e/repos/x''" and q = "''/repos/../repos/x''"]) (simp_all add: path_eval)
  have pp: "normalize_path ''/repos/'' = ''/repos''"
    by (rule normalize_path_evalI [where p = "''/repos/''" and q = "''/repos/''"]) (simp_all add: path_eval)
  have "unquote ''/repos/%252e%252e/admin'' = ''/repos/%2e%2e/admin''"
    and "unquote ''/repos/%2e%2e/admin'' = ''/repos/../admin''"
    by (simp_all add: path_eval)
  then have "unquote_fixpoint ''/repos/%252e%252e/admin'' = ''/repos/../admin''"
    by (subst unquote_fixpoint.simps) (simp add: unquote_fixpoint_step path_eval)
  moreover have "urlsplit_path ''/repos/%252e%252e/admin'' = Some ''/repos/%252e%252e/admin''"
    by (simp add: path_eval)
  ultimately have ap: "normalize_path ''/repos/%252e%252e/admin'' = ''/admin''"
    by (simp add: normalize_path_def normpath_def)
  have a: "path_allowed (normalize_path ''/repos/%2e%2e/repos/x'') [''/repos/'']"
    by (simp add: path_allowed_iff np pp rstrip_char_def)
  moreover have "\<not> path_allowed (normalize_path ''/repos/%252e%252e/admin'') [''/repos/'']"
    by (simp add: path_allowed_iff ap pp rstrip_char_def)
  ultimately show ?thesis using path_allowed_segment_aligned [OF a] by simp
qed

text \<open>
  C26: the decoding loop of \<open>_normalize_path\<close> returns, and what it returns is stable. For every
  text the loop ends in a fixpoint of \<open>unquote\<close> that holds no decodable percent triple, so the
  path the proxy judges is the one a server that decodes any number of times would see.
\<close>

theorem unquote_fixpoint_stable:
  "unquote (unquote_fixpoint p) = unquote_fixpoint p \<and> \<not> decodable (unquote_fixpoint p)"
proof (induction p rule: unquote_fixpoint.induct)
  case (1 p)
  show ?case
  proof (cases "unquote p = p")
    case True
    then show ?thesis
      using unquote_fixpoint_decoded [of p] unquote_fixpoint.simps [of p] by simp
  next
    case False
    with 1 show ?thesis using unquote_fixpoint.simps [of p] by simp
  qed
qed

text \<open>
  C27: a stored path prefix is read as a URL again, so an encoded question mark widens it. The
  request path \<open>/%3Fx\<close> normalises to \<open>/?x\<close>, which is what an approval records and a grant
  stores; \<open>_path_allowed\<close> normalises that stored text once more, cuts it at the question mark,
  and every path of the host passes.
\<close>

theorem stored_query_prefix_allows_every_path:
  "normalize_path ''/%3Fx'' = ''/?x'' \<and>
   path_allowed (normalize_path raw) [normalize_path ''/%3Fx'']"
proof -
  have np: "normalize_path ''/%3Fx'' = ''/?x''"
    by (rule normalize_path_evalI [where p = "''/%3Fx''" and q = "''/?x''"])
      (simp_all add: path_eval)
  have pp: "normalize_path ''/?x'' = ''/''"
    by (rule normalize_path_evalI [where p = "''/''" and q = "''/''"]) (simp_all add: path_eval)
  have "rstrip_char CHR ''/'' ''/'' = []" by (simp add: rstrip_char_def)
  moreover have "prefix ''/'' (normalize_path raw)"
    by (rule normalize_path_shape [of raw]) (auto simp: numeral_2_eq_2)
  ultimately show ?thesis by (simp add: np pp path_allowed_iff)
qed

lemma word_char_code: "is_word_char c \<Longrightarrow> 32 < char_code c \<and> c \<noteq> CHR ''/'' \<and> c \<noteq> CHR ''?'' \<and> c \<noteq> CHR ''#'' 
   \<and> c \<noteq> CHR ''['' \<and> c \<noteq> CHR '']''"
  by (auto simp: is_word_char_def is_alnum_ascii_def is_digit_def is_upper_ascii_def is_lower_ascii_def char_code_def)

text \<open>
  C28: a leading double slash hides a segment from the path scope. \<open>urlsplit\<close> reads the first
  segment of \<open>//seg/rest\<close> as a network location, so the path that is judged is \<open>/rest\<close>, while the
  request that leaves the box names \<open>//seg/rest\<close>. A credential bound to \<open>/repos\<close> is swapped on
  \<open>//admin/repos/x\<close>.
\<close>

theorem double_slash_hides_segment:
  assumes "list_all is_word_char seg" and "is_word_char c"
  shows "normalize_path (''//'' @ seg @ CHR ''/'' # c # rest) = normalize_path (CHR ''/'' # c # rest)"
proof -
  let ?f = "filter (\<lambda>c. char_code c \<notin> {9, 10, 13})"
  let ?nd = "\<lambda>c. \<not> (c = CHR ''/'' \<or> c = CHR ''?'' \<or> c = CHR ''#'')"
  have slash: "32 < char_code CHR ''/''" by (simp add: char_code_def)
  have seg: "?f seg = seg" 
    using assms(1) word_char_code by (fastforce simp: filter_id_conv list_all_iff)
  have c: "char_code c \<notin> {9, 10, 13}" "c \<noteq> CHR ''/''" using word_char_code [OF assms(2)] by auto
  have sl: "char_code CHR ''/'' \<notin> {9, 10, 13}" by (simp add: char_code_def)
  have al: "\<not> is_alpha_ascii CHR ''/''" by (simp add: is_alpha_ascii_def py_eval)
  have nd: "\<forall>x \<in> set seg. ?nd x" using assms(1) word_char_code by (auto simp: list_all_iff)
  then have tw: "takeWhile ?nd (seg @ CHR ''/'' # c # ?f rest) = seg"
    and dw: "dropWhile ?nd (seg @ CHR ''/'' # c # ?f rest) = CHR ''/'' # c # ?f rest"
    by (simp_all add: takeWhile_append2 dropWhile_append2)
  have ok: "netloc_ok seg"
    using assms(1) word_char_code by (auto simp: netloc_ok_def Let_def list_all_iff)
  have "urlsplit_path (''//'' @ seg @ CHR ''/'' # c # rest) = urlsplit_path (CHR ''/'' # c # rest)"
    using slash c sl seg al tw dw ok
    by (simp add: urlsplit_path_def strip_scheme_def Let_def)
  moreover obtain p where "urlsplit_path (CHR ''/'' # c # rest) = Some p"
    using slash c sl al by (simp add: urlsplit_path_def strip_scheme_def Let_def)
  ultimately show ?thesis by (simp add: normalize_path_def)
qed

theorem double_slash_hides_segment_witness:
  "normalize_path ''//admin/repos/x'' = ''/repos/x''
   \<and> path_allowed (normalize_path ''//admin/repos/x'') [''/repos'']"
proof -
  have "normalize_path ''//admin/repos/x'' = normalize_path ''/repos/x''"
    using double_slash_hides_segment [of "''admin''" "CHR ''r''" "''epos/x''"]
    by (simp add: py_eval)
  moreover have "normalize_path ''/repos/x'' = ''/repos/x''"
    by (rule normalize_path_evalI [where p = "''/repos/x''" and q = "''/repos/x''"]) (simp_all add: path_eval)
  moreover have "normalize_path ''/repos'' = ''/repos''"
    by (rule normalize_path_evalI [where p = "''/repos''" and q = "''/repos''"]) (simp_all add: path_eval)
  ultimately show ?thesis by (simp add: path_allowed_iff rstrip_char_def)
qed

end
