(* ===== verification/Approval_Store.thy ===== *)
theory Approval_Store
  imports Py_Prelude
begin

section \<open>The approvals store\<close>

text \<open>
  The directory tree both the proxy addon and confirmd work on: one JSON file per approval, in
  \<open>pending/\<close>, \<open>answered/\<close>, \<open>consumed/\<close> or \<open>pending-quarantine/\<close>. A directory is its listing (file
  name, contents, modification time and owner, in listing order) and a version that every
  change of the listing advances: the version stands for the directory's modification time,
  which the caches compare for equality. A file that does not parse is \<open>Torn\<close>; one that parses to
  something other than an object is \<open>Not_Record\<close>.
\<close>

subsection \<open>Approval items\<close>

record item =
  it_id :: "string option"
  it_kind :: "string option"
  it_credential :: "string option"
  it_host :: "string option"
  it_method :: "string option"
  it_path_prefix :: "string option"
  it_scope :: "string option"
  it_amount :: "string option"
  it_job :: "string option"
  it_detail :: "string option"
  it_summary :: "string option"
  it_created :: stamp
  it_expires :: stamp
  it_csrf_planted :: bool
  it_decision :: "string option"
  it_answered_at :: stamp
  it_answered_by :: "string option"
  it_requester :: "string option"
  it_ttl_hours :: "int option"
  it_expired_at :: stamp
  it_expired_by :: "string option"
  it_reopened_from :: "string option"
  it_original_requester :: "string option"

definition empty_item :: item where
  "empty_item =
     \<lparr>it_id = None, it_kind = None, it_credential = None, it_host = None, it_method = None,
      it_path_prefix = None, it_scope = None, it_amount = None, it_job = None, it_detail = None,
      it_summary = None, it_created = No_Stamp, it_expires = No_Stamp, it_csrf_planted = False,
      it_decision = None, it_answered_at = No_Stamp, it_answered_by = None, it_requester = None,
      it_ttl_hours = None, it_expired_at = No_Stamp, it_expired_by = None,
      it_reopened_from = None, it_original_requester = None\<rparr>"

text \<open>\<open>is_expired\<close>: an absent or unreadable expiry never expires.\<close>

definition is_expired :: "int \<Rightarrow> item \<Rightarrow> bool" where
  "is_expired now it = (case stamp_instant (it_expires it) of None \<Rightarrow> False | Some t \<Rightarrow> t \<le> now)"

lemma is_expired_mono: "is_expired t it \<Longrightarrow> t \<le> u \<Longrightarrow> is_expired u it"
  by (auto simp: is_expired_def split: option.splits)

subsection \<open>Files and directories\<close>

datatype content = Torn | Not_Record | Item item

record file_info =
  f_content :: content
  f_mtime :: int
  f_owner :: "string option"

record dir =
  listing :: "(string \<times> file_info) list"
  version :: nat

definition empty_dir :: dir where
  "empty_dir = \<lparr>listing = [], version = 0\<rparr>"

definition dir_get :: "dir \<Rightarrow> string \<Rightarrow> file_info option" where
  "dir_get d fn = map_of (listing d) fn"

definition dir_put :: "string \<Rightarrow> file_info \<Rightarrow> dir \<Rightarrow> dir" where
  "dir_put fn f d = \<lparr>listing = assoc_put fn f (listing d), version = Suc (version d)\<rparr>"

text \<open>Removing a file that is gone raises and changes nothing.\<close>

definition dir_del :: "string \<Rightarrow> dir \<Rightarrow> dir" where
  "dir_del fn d =
     (if dir_get d fn = None then d
      else \<lparr>listing = assoc_delete fn (listing d), version = Suc (version d)\<rparr>)"

lemma dir_get_empty [simp]: "dir_get empty_dir fn = None"
  by (simp add: dir_get_def empty_dir_def)

lemma dir_get_put [simp]: "dir_get (dir_put fn f d) fn' = (if fn' = fn then Some f else dir_get d fn')"
  by (simp add: dir_get_def dir_put_def)

lemma dir_get_del [simp]: "dir_get (dir_del fn d) fn' = (if fn' = fn then None else dir_get d fn')"
  by (simp add: dir_get_def dir_del_def)

definition dir_names :: "dir \<Rightarrow> string list" where
  "dir_names d = map fst (listing d)"

lemma dir_names_iff: "fn \<in> set (dir_names d) \<longleftrightarrow> dir_get d fn \<noteq> None"
  by (auto simp: dir_names_def dir_get_def map_of_eq_None_iff)

subsection \<open>Names\<close>

definition json_name :: "string \<Rightarrow> string" where
  "json_name aid = aid @ ''.json''"

definition is_json :: "string \<Rightarrow> bool" where
  "is_json fn = suffix ''.json'' fn"

definition stem :: "string \<Rightarrow> string" where
  "stem fn = take (length fn - 5) fn"

lemma stem_json_name [simp]: "stem (json_name a) = a"
  by (simp add: stem_def json_name_def)

lemma json_name_inj [simp]: "json_name a = json_name b \<longleftrightarrow> a = b"
  by (simp add: json_name_def)

lemma is_json_json_name [simp]: "is_json (json_name a)"
  by (simp add: is_json_def json_name_def suffix_def)

lemma json_name_stem [simp]: "is_json fn \<Longrightarrow> json_name (stem fn) = fn"
  by (auto simp: is_json_def json_name_def stem_def suffix_def)

text \<open>
  \<open>_AID_RE\<close> of the proxy is anchored with \<open>\A..\Z\<close>, \<open>ID_RE\<close> of confirmd with \<open>^..$\<close>.
\<close>

definition proxy_aid_ok :: "string \<Rightarrow> bool" where
  "proxy_aid_ok aid = re_word_full 64 aid"

definition confirmd_aid_ok :: "string \<Rightarrow> bool" where
  "confirmd_aid_ok aid = re_word_dollar 64 aid"

lemma proxy_aid_confirmd: "proxy_aid_ok aid \<Longrightarrow> confirmd_aid_ok aid"
  by (simp add: proxy_aid_ok_def confirmd_aid_ok_def re_word_full_dollar)

subsection \<open>The expired terminal record\<close>

text \<open>
  The record both reapers stamp, and the two stampers: confirmd writes a temporary file and
  claims the name with a hard link, the proxy creates the file exclusively. Both raise on a
  malformed id, raise when the write fails, and leave an existing record alone.
\<close>

datatype stamp_result = Stamped | Already_There | Bad_Aid | Write_Failed

definition expired_record :: "int \<Rightarrow> string \<Rightarrow> string option \<Rightarrow> item \<Rightarrow> item" where
  "expired_record now by owner it =
     it\<lparr>it_csrf_planted := False, it_decision := Some ''expired'', it_expired_at := At now,
        it_expired_by := Some by, it_requester := owner\<rparr>"

definition confirmd_stamp ::
  "bool \<Rightarrow> int \<Rightarrow> string \<Rightarrow> item \<Rightarrow> string option \<Rightarrow> dir \<Rightarrow> stamp_result \<times> dir"
where
  "confirmd_stamp write_ok now aid it owner consumed =
     (if \<not> confirmd_aid_ok aid then (Bad_Aid, consumed)
      else if \<not> write_ok then (Write_Failed, consumed)
      else if dir_get consumed (json_name aid) \<noteq> None then (Already_There, consumed)
      else (Stamped, dir_put (json_name aid)
              \<lparr>f_content = Item (expired_record now ''confirmd'' owner it), f_mtime = now,
               f_owner = Some ''swapd''\<rparr> consumed))"

definition proxy_stamp ::
  "bool \<Rightarrow> int \<Rightarrow> string \<Rightarrow> item \<Rightarrow> string option \<Rightarrow> dir \<Rightarrow> stamp_result \<times> dir"
where
  "proxy_stamp write_ok now aid it owner consumed =
     (if \<not> proxy_aid_ok aid then (Bad_Aid, consumed)
      else if dir_get consumed (json_name aid) \<noteq> None then (Already_There, consumed)
      else if \<not> write_ok then (Write_Failed, consumed)
      else (Stamped, dir_put (json_name aid)
              \<lparr>f_content = Item (expired_record now ''proxy'' owner it), f_mtime = now,
               f_owner = Some ''swapd''\<rparr> consumed))"

text \<open>
  What the reapers rely on, whichever stamper ran: a stamp never changes a record that is there,
  and after a stamp that reports success or a lost race a record is there.
\<close>

locale write_once =
  fixes stamp_fn :: "bool \<Rightarrow> int \<Rightarrow> string \<Rightarrow> item \<Rightarrow> string option \<Rightarrow> dir \<Rightarrow> stamp_result \<times> dir"
    and aid_ok :: "string \<Rightarrow> bool"
  assumes keeps: "dir_get d fn = Some f \<Longrightarrow>
      dir_get (snd (stamp_fn w now aid it owner d)) fn = Some f"
    and only_name: "fn \<noteq> json_name aid \<Longrightarrow>
      dir_get (snd (stamp_fn w now aid it owner d)) fn = dir_get d fn"
    and present: "fst (stamp_fn w now aid it owner d) \<in> {Stamped, Already_There} \<Longrightarrow>
      dir_get (snd (stamp_fn w now aid it owner d)) (json_name aid) \<noteq> None"
    and fresh_expired: "dir_get d (json_name aid) = None \<Longrightarrow>
      dir_get (snd (stamp_fn w now aid it owner d)) (json_name aid) = Some f \<Longrightarrow>
      \<exists>it'. f_content f = Item it' \<and> it_decision it' = Some ''expired''
        \<and> it_expires it' = it_expires it"
    and bad_aid: "fst (stamp_fn w now aid it owner d) = Bad_Aid \<longleftrightarrow> \<not> aid_ok aid"
    and failed_same: "fst (stamp_fn w now aid it owner d) \<noteq> Stamped \<Longrightarrow>
      snd (stamp_fn w now aid it owner d) = d"
begin

lemma absent_after: "dir_get (snd (stamp_fn w now aid it owner d)) fn = None \<Longrightarrow> dir_get d fn = None"
  using keeps by (metis not_None_eq)

lemma stamps_keep:
  "dir_get d fn = Some f \<Longrightarrow>
    dir_get (fold (\<lambda>(w, now, aid, it, owner) d. snd (stamp_fn w now aid it owner d)) runs d) fn
      = Some f"
  by (induction runs arbitrary: d) (auto simp: keeps)

lemma second_stamp_loses:
  assumes "fst (stamp_fn w now aid it owner d) = Stamped"
  shows "dir_get (snd (stamp_fn w' now' aid it' owner' (snd (stamp_fn w now aid it owner d))))
      (json_name aid) = dir_get (snd (stamp_fn w now aid it owner d)) (json_name aid)"
  using present [of w now aid it owner d] keeps assms by fastforce

end

interpretation confirmd_stamps: write_once confirmd_stamp confirmd_aid_ok
  by unfold_locales (auto simp: confirmd_stamp_def expired_record_def split: if_splits)

interpretation proxy_stamps: write_once proxy_stamp proxy_aid_ok
  by unfold_locales (auto simp: proxy_stamp_def expired_record_def split: if_splits)

text \<open>The shared directories, and the names of the per-approval lock files.\<close>

record approvals =
  pending :: dir
  answered :: dir
  consumed :: dir
  quarantine :: dir
  lock_files :: "string list"

definition empty_approvals :: approvals where
  "empty_approvals =
     \<lparr>pending = empty_dir, answered = empty_dir, consumed = empty_dir, quarantine = empty_dir,
      lock_files = []\<rparr>"

end
