(* ===== verification/Grant_Writer.thy ===== *)
theory Grant_Writer
  imports Py_Prelude
begin

section \<open>The grant writer (proxy/grant-writer)\<close>

text \<open>
  The single writer of \<open>grants.json\<close>: minting and revoking under its lock. The file is the list
  of grants. A run is a function of the clock readings it makes, of whether its audit line and
  its save reach the disk, and of the list it read; it returns the exit code and the list the
  file holds afterwards. An exit code other than 0 leaves the file as it was.
\<close>

record grant =
  g_credential :: string
  g_host :: string
  g_method :: string
  g_path_prefix :: string
  g_scope :: string
  g_expires :: stamp
  g_approval_id :: string
  g_job :: string

record mint_args =
  a_credential :: string
  a_host :: string
  a_method :: string
  a_path_prefix :: string
  a_approval_id :: string
  a_scope :: string
  a_job :: string
  a_ttl_hours :: int
  a_approval_expires :: stamp

definition hours :: "int \<Rightarrow> int" where "hours n = n * seconds 3600"

definition reap_expired :: "int \<Rightarrow> grant list \<Rightarrow> grant list" where
  "reap_expired now gs =
     filter (\<lambda>g. case g_expires g of At t \<Rightarrow> \<not> t \<le> now | _ \<Rightarrow> False) gs"

text \<open>\<open>_approval_expiry_refusal\<close>: exit 3 for a crossed expiry, 4 for an unreadable one.\<close>

definition approval_expiry_refusal :: "int \<Rightarrow> stamp \<Rightarrow> int option" where
  "approval_expiry_refusal now e =
     (case e of
        No_Stamp \<Rightarrow> None
      | Bad_Stamp \<Rightarrow> Some 4
      | At t \<Rightarrow> if t \<le> now then Some 3 else None)"

definition clamp_ttl :: "int \<Rightarrow> int" where
  "clamp_ttl n = (let t = (if 168 < n then 168 else n) in if t < 1 then 1 else t)"

definition new_grant :: "int \<Rightarrow> mint_args \<Rightarrow> grant" where
  "new_grant now a =
     \<lparr>g_credential = a_credential a, g_host = a_host a, g_method = str_upper (a_method a),
      g_path_prefix = or_default (Some (a_path_prefix a)) ''/'', g_scope = a_scope a,
      g_expires = At (now + hours (clamp_ttl (a_ttl_hours a))),
      g_approval_id = a_approval_id a, g_job = a_job a\<rparr>"

text \<open>
  \<open>_with_lock\<close>: reap, apply, audit when there is something to audit, save. \<open>Inl code\<close> is the
  refusal the applied function raises.
\<close>

definition with_lock ::
  "int \<Rightarrow> bool \<Rightarrow> bool \<Rightarrow> (grant list \<Rightarrow> int + (grant list \<times> bool)) \<Rightarrow> grant list \<Rightarrow> int \<times> grant list"
where
  "with_lock now audit_ok save_ok f file =
     (case f (reap_expired now file) of
        Inl code \<Rightarrow> (code, file)
      | Inr (gs, wants_audit) \<Rightarrow>
          if wants_audit \<and> \<not> audit_ok then (1, file)
          else if \<not> save_ok then (1, file) else (0, gs))"

definition add_fn :: "int \<Rightarrow> int \<Rightarrow> mint_args \<Rightarrow> grant list \<Rightarrow> int + (grant list \<times> bool)" where
  "add_fn now0 now a gs =
     (if list_ex (\<lambda>g. g_approval_id g = a_approval_id a) gs then Inr (gs, False)
      else case approval_expiry_refusal now (a_approval_expires a) of
        Some code \<Rightarrow> Inl code
      | None \<Rightarrow> Inr (gs @ [new_grant now0 a], True))"

text \<open>\<open>cmd_add\<close>: \<open>now0\<close> is read before the lock, \<open>now\<close> inside it.\<close>

definition grant_add :: "int \<Rightarrow> int \<Rightarrow> bool \<Rightarrow> bool \<Rightarrow> mint_args \<Rightarrow> grant list \<Rightarrow> int \<times> grant list"
where
  "grant_add now0 now audit_ok save_ok a file =
     (if a_credential a = [] \<or> a_host a = [] \<or> a_method a = [] then (1, file)
      else with_lock now audit_ok save_ok (add_fn now0 now a) file)"

definition grant_revoke :: "int \<Rightarrow> bool \<Rightarrow> bool \<Rightarrow> string \<Rightarrow> grant list \<Rightarrow> int \<times> grant list" where
  "grant_revoke now audit_ok save_ok job file =
     with_lock now audit_ok save_ok
       (\<lambda>gs. let kept = filter (\<lambda>g. g_job g \<noteq> job) gs
             in Inr (kept, length kept < length gs)) file"

subsection \<open>Lemmas\<close>

lemma clamp_ttl_range: "1 \<le> clamp_ttl n \<and> clamp_ttl n \<le> 168"
  by (simp add: clamp_ttl_def Let_def)

lemma set_reap: "g \<in> set (reap_expired now gs) \<longleftrightarrow> g \<in> set gs \<and> (\<exists>t. g_expires g = At t \<and> now < t)"
  by (auto simp: reap_expired_def split: stamp.splits)

lemma with_lock_fail: "with_lock now ao so f file = (code, gs) \<Longrightarrow> gs \<noteq> file \<Longrightarrow>
    \<exists>aud. f (reap_expired now file) = Inr (gs, aud) \<and> code = 0"
  by (auto simp: with_lock_def split: sum.splits if_splits)

lemma grant_add_0:
  assumes "grant_add now0 now ao so a file = (0, gs)"
  shows "gs = reap_expired now file \<and>
      list_ex (\<lambda>g. g_approval_id g = a_approval_id a) (reap_expired now file)
    \<or> gs = reap_expired now file @ [new_grant now0 a] \<and>
      \<not> list_ex (\<lambda>g. g_approval_id g = a_approval_id a) (reap_expired now file) \<and>
      approval_expiry_refusal now (a_approval_expires a) = None"
  using assms
  by (auto simp: grant_add_def with_lock_def add_fn_def approval_expiry_refusal_def
      split: if_splits option.splits stamp.splits)

lemma grant_add_nonzero:
  "grant_add now0 now ao so a file = (code, gs) \<Longrightarrow> code \<noteq> 0 \<Longrightarrow> gs = file"
  by (auto simp: grant_add_def with_lock_def add_fn_def split: if_splits option.splits sum.splits)

end
