(* ===== verification/Confirmd_State.thy ===== *)
theory Confirmd_State
  imports Approval_Store Grant_Writer Bounded_Cache "HOL-Library.List_Lexorder"
begin

section \<open>confirmd: state, nonces and the reaping render (confirm/confirmd.py)\<close>

text \<open>
  The owner's approval page. Its state is the approvals store it shares with the proxy, its
  in-memory nonce maps, the grants file its mint writes through the grant writer, the audit
  trail and the re-open pushes. Each handler runs under the per-approval locks, so it is one
  step on this state; what other processes and the disk may do meanwhile is a parameter of the
  step. Clocks are parameters too.
\<close>

subsection \<open>State\<close>

record nonce_entry =
  n_nonce :: string
  n_ts :: int

datatype audit_event = Audit (ev_name: string) (ev_login: string) (ev_aid: string)

record confirmd =
  store :: approvals
  csrf_rings :: "(string \<times> nonce_entry list) list"
  reopen_nonces :: "(string \<times> nonce_entry) list"
  reopened_index :: "(string \<times> string) list"
  grants_file :: "grant list"
  trail :: "audit_event list"
  pushed :: "string list"
  last_housekeeping :: "int option"

definition init_confirmd :: confirmd where
  "init_confirmd =
     \<lparr>store = empty_approvals, csrf_rings = [], reopen_nonces = [], reopened_index = [],
      grants_file = [], trail = [], pushed = [],
      last_housekeeping = None\<rparr>"

datatype response = Status int | See_Other string | Page_With_Nonce string | Uncaught

definition audit_log :: "string \<Rightarrow> string \<Rightarrow> string \<Rightarrow> confirmd \<Rightarrow> confirmd" where
  "audit_log ev login aid c = c\<lparr>trail := trail c @ [Audit ev login aid]\<rparr>"

definition evict_aid_lock :: "string \<Rightarrow> confirmd \<Rightarrow> confirmd" where
  "evict_aid_lock aid c = c\<lparr>csrf_rings := assoc_delete aid (csrf_rings c)\<rparr>"

definition map_store :: "(approvals \<Rightarrow> approvals) \<Rightarrow> confirmd \<Rightarrow> confirmd" where
  "map_store f c = c\<lparr>store := f (store c)\<rparr>"

definition remove_pending :: "string \<Rightarrow> confirmd \<Rightarrow> confirmd" where
  "remove_pending fn = map_store (\<lambda>s. s\<lparr>pending := dir_del fn (pending s)\<rparr>)"

definition set_consumed :: "dir \<Rightarrow> confirmd \<Rightarrow> confirmd" where
  "set_consumed d = map_store (\<lambda>s. s\<lparr>consumed := d\<rparr>)"

subsection \<open>CSRF nonce rings and re-open nonces\<close>

definition nonce_ttl :: int where "nonce_ttl = seconds 900"

definition csrf_ring_size :: nat where "csrf_ring_size = 3"

definition csrf_aid_cap :: nat where "csrf_aid_cap = 4096"

definition nonce_wellformed :: "string \<Rightarrow> bool" where
  "nonce_wellformed csrf =
     (length (drop_final_newline csrf) = 32 \<and> list_all is_word_char (drop_final_newline csrf))"

definition prune_csrf_ring :: "int \<Rightarrow> nonce_entry list \<Rightarrow> nonce_entry list" where
  "prune_csrf_ring now ring = filter (\<lambda>e. now - n_ts e \<le> nonce_ttl) ring"

text \<open>\<open>del ring[:-n]\<close> keeps the last \<open>n\<close> entries.\<close>

definition last_entries :: "nat \<Rightarrow> 'a list \<Rightarrow> 'a list" where
  "last_entries n xs = drop (length xs - n) xs"

definition mint_csrf_nonce :: "int \<Rightarrow> string \<Rightarrow> string \<Rightarrow> confirmd \<Rightarrow> confirmd" where
  "mint_csrf_nonce now nonce aid c =
     (let entry = \<lparr>n_nonce = nonce, n_ts = now\<rparr> in
      case map_of (csrf_rings c) aid of
        None \<Rightarrow> c\<lparr>csrf_rings := put_evicting csrf_aid_cap aid [entry] (csrf_rings c)\<rparr>
      | Some ring \<Rightarrow>
          c\<lparr>csrf_rings := assoc_put aid
              (last_entries csrf_ring_size (prune_csrf_ring now ring @ [entry])) (csrf_rings c)\<rparr>)"

definition csrf_nonce_ok :: "int \<Rightarrow> string \<Rightarrow> string \<Rightarrow> confirmd \<Rightarrow> bool" where
  "csrf_nonce_ok now aid csrf c =
     (nonce_wellformed csrf \<and>
      (case map_of (csrf_rings c) aid of
         None \<Rightarrow> False
       | Some ring \<Rightarrow> list_ex (\<lambda>e. now - n_ts e \<le> nonce_ttl \<and> n_nonce e = csrf) ring))"

text \<open>Minting or re-issuing a re-open nonce: the page gets the live one while it lasts.\<close>

definition mint_reopen_nonce :: "int \<Rightarrow> string \<Rightarrow> string \<Rightarrow> confirmd \<Rightarrow> string \<times> confirmd" where
  "mint_reopen_nonce now nonce aid c =
     (let fresh = (nonce, c\<lparr>reopen_nonces := put_evicting csrf_aid_cap aid
                     \<lparr>n_nonce = nonce, n_ts = now\<rparr> (reopen_nonces c)\<rparr>)
      in case map_of (reopen_nonces c) aid of
           None \<Rightarrow> fresh
         | Some e \<Rightarrow> if now - n_ts e \<le> nonce_ttl then (n_nonce e, c) else fresh)"

definition reopen_nonce_ok :: "int \<Rightarrow> string \<Rightarrow> string \<Rightarrow> confirmd \<Rightarrow> bool" where
  "reopen_nonce_ok now aid csrf c =
     (nonce_wellformed csrf \<and>
      (case map_of (reopen_nonces c) aid of
         None \<Rightarrow> False
       | Some e \<Rightarrow> now - n_ts e \<le> nonce_ttl \<and> n_nonce e = csrf))"

definition evict_reopen_nonce :: "string \<Rightarrow> confirmd \<Rightarrow> confirmd" where
  "evict_reopen_nonce aid c = c\<lparr>reopen_nonces := assoc_delete aid (reopen_nonces c)\<rparr>"

subsection \<open>The reaping render\<close>

text \<open>Which file operations of a pass fail, by file name.\<close>

record faults =
  write_fails :: "string \<Rightarrow> bool"
  remove_fails :: "string \<Rightarrow> bool"
  move_fails :: "string \<Rightarrow> bool"
  lock_fails :: "string \<Rightarrow> bool"

definition no_faults :: faults where
  "no_faults = \<lparr>write_fails = (\<lambda>_. False), remove_fails = (\<lambda>_. False), move_fails = (\<lambda>_. False),
     lock_fails = (\<lambda>_. False)\<rparr>"

text \<open>
  \<open>_aid_xlock\<close>: the lock file is created on the way in; when it cannot be, the failure is audited
  and the caller goes on without it.
\<close>

definition lock_name :: "string \<Rightarrow> string" where
  "lock_name aid = aid @ ''.lock''"

definition aid_xlock :: "faults \<Rightarrow> string \<Rightarrow> confirmd \<Rightarrow> confirmd" where
  "aid_xlock flt aid c =
     (if lock_fails flt (lock_name aid) then audit_log ''aid-xlock-unavailable'' ''-'' aid c
      else map_store (\<lambda>s. s\<lparr>lock_files := List.insert (lock_name aid) (lock_files s)\<rparr>) c)"

definition tmp_grace :: int where "tmp_grace = seconds 300"

text \<open>\<open>_sweep_stale_tmp\<close>: crash residue of the atomic writers, past the grace period.\<close>

definition sweep_stale_tmp :: "faults \<Rightarrow> int \<Rightarrow> dir \<Rightarrow> dir" where
  "sweep_stale_tmp flt now d =
     fold (\<lambda>fn d.
        case dir_get d fn of
          None \<Rightarrow> d
        | Some f \<Rightarrow>
            if \<not> suffix ''.tmp'' fn \<or> now - f_mtime f < tmp_grace \<or> remove_fails flt fn then d
            else dir_del fn d)
       (sort (dir_names d)) d"

definition corrupt_grace :: int where "corrupt_grace = seconds 120"

definition quarantine_corrupt_pending ::
  "faults \<Rightarrow> int \<Rightarrow> string \<Rightarrow> file_info \<Rightarrow> confirmd \<Rightarrow> bool \<times> confirmd"
where
  "quarantine_corrupt_pending flt now fn f c =
     (if now - f_mtime f < corrupt_grace then (False, c)
      else if move_fails flt fn then (False, c)
      else (True, audit_log ''pending-quarantined'' [] (stem fn)
             (map_store (\<lambda>s. s\<lparr>pending := dir_del fn (pending s),
                              quarantine := dir_put fn f (quarantine s)\<rparr>) c)))"

text \<open>One expired file of the render: stamp, then delete, then audit, then evict.\<close>

definition reap_expired_file ::
  "faults \<Rightarrow> int \<Rightarrow> string \<Rightarrow> file_info \<Rightarrow> item \<Rightarrow> confirmd \<Rightarrow> confirmd"
where
  "reap_expired_file flt now fn f it c =
     (let aid = stem fn in
      if \<not> confirmd_aid_ok aid then
        evict_aid_lock aid (if remove_fails flt fn then c else remove_pending fn c)
      else
        let c = aid_xlock flt aid c;
            (r, d) = confirmd_stamp (\<not> write_fails flt fn) now aid it (f_owner f)
                       (consumed (store c)) in
        if r = Write_Failed then evict_aid_lock aid c
        else
          let c1 = set_consumed d c;
              removed = (\<not> remove_fails flt fn);
              c2 = (if removed then remove_pending fn c1 else c1);
              c3 = (if r = Stamped \<or> removed
                    then audit_log ''expired-reaped'' [] aid c2 else c2)
          in evict_aid_lock aid c3)"

definition load_pending_file ::
  "faults \<Rightarrow> int \<Rightarrow> string \<Rightarrow> confirmd \<Rightarrow> item option \<times> confirmd"
where
  "load_pending_file flt now fn c =
     (if \<not> is_json fn then (None, c)
      else case dir_get (pending (store c)) fn of
        None \<Rightarrow> (None, c)
      | Some f \<Rightarrow>
          (case f_content f of
             Torn \<Rightarrow> (None, snd (quarantine_corrupt_pending flt now fn f c))
           | Not_Record \<Rightarrow> (None, c)
           | Item it \<Rightarrow>
               if is_expired now it then (None, reap_expired_file flt now fn f it c)
               else (Some it, c)))"

fun load_pending_files ::
  "faults \<Rightarrow> int \<Rightarrow> string list \<Rightarrow> confirmd \<Rightarrow> item list \<times> confirmd"
where
  "load_pending_files flt now [] c = ([], c)"
| "load_pending_files flt now (fn # fns) c =
     (let (x, c') = load_pending_file flt now fn c;
          (xs, c'') = load_pending_files flt now fns c'
      in (case x of None \<Rightarrow> xs | Some it \<Rightarrow> it # xs, c''))"

definition load_pending :: "faults \<Rightarrow> int \<Rightarrow> confirmd \<Rightarrow> item list \<times> confirmd" where
  "load_pending flt now c =
     (let c1 = map_store (\<lambda>s. s\<lparr>pending := sweep_stale_tmp flt now (pending s)\<rparr>) c
      in load_pending_files flt now (sort (dir_names (pending (store c1)))) c1)"

text \<open>
  The reap of one expired item by the handlers of \<open>GET /approval\<close> and \<open>POST /answer\<close>: stamp, then
  remove; a failed stamp keeps the pending file. The caller holds the locks.
\<close>

definition reap_on_request ::
  "faults \<Rightarrow> int \<Rightarrow> string \<Rightarrow> string \<Rightarrow> file_info \<Rightarrow> item \<Rightarrow> confirmd \<Rightarrow> response \<times> confirmd"
where
  "reap_on_request flt now login aid f it c =
     (let fn = json_name aid;
          (r, d) = confirmd_stamp (\<not> write_fails flt fn) now aid it (f_owner f)
                     (consumed (store c)) in
      if r = Write_Failed
      then (Status 410, audit_log ''expired-reaped'' login aid (evict_aid_lock aid c))
      else
        let c1 = set_consumed d c;
            c2 = (if remove_fails flt fn then c1 else remove_pending fn c1)
        in (Status 410, audit_log ''expired-reaped'' login aid (evict_aid_lock aid c2)))"

text \<open>
  \<open>GET /approval/<aid>\<close>: the page with a fresh nonce, or the reap of an expired item.
\<close>

definition get_approval ::
  "faults \<Rightarrow> int \<Rightarrow> string \<Rightarrow> string \<Rightarrow> string \<Rightarrow> confirmd \<Rightarrow> response \<times> confirmd"
where
  "get_approval flt now nonce login aid c0 =
     (if \<not> confirmd_aid_ok aid then (Status 400, c0)
      else let c = aid_xlock flt aid c0 in
      case dir_get (pending (store c)) (json_name aid) of
        None \<Rightarrow> (Status 404, evict_aid_lock aid c)
      | Some f \<Rightarrow>
          (case f_content f of
             Torn \<Rightarrow> (Status 404, evict_aid_lock aid c)
           | Not_Record \<Rightarrow> (Uncaught, c)
           | Item it \<Rightarrow>
               if is_expired now it then reap_on_request flt now login aid f it c
               else (Page_With_Nonce nonce, mint_csrf_nonce now nonce aid c)))"

end
