(* ===== verification/Confirmd_Housekeeping.thy ===== *)
theory Confirmd_Housekeeping
  imports Confirmd_State "HOL-Library.Product_Lexorder"
begin

section \<open>confirmd: bounded history (confirm/confirmd.py)\<close>

text \<open>
  The cadence-gated housekeeping: collecting strays from \<open>answered/\<close>, pruning \<open>consumed/\<close> and the
  quarantine to their newest files, and dropping lock files of approvals that have no file left.
\<close>

definition answered_sweep_grace :: int where "answered_sweep_grace = seconds 86400"

definition consumed_keep :: nat where "consumed_keep = 1000"

definition quarantine_keep :: nat where "quarantine_keep = 200"

definition housekeeping_interval :: int where "housekeeping_interval = seconds 3600"

definition sweep_answered_file :: "faults \<Rightarrow> int \<Rightarrow> string \<Rightarrow> approvals \<Rightarrow> approvals" where
  "sweep_answered_file flt now fn s =
     (if \<not> is_json fn then s
      else case dir_get (answered s) fn of
        None \<Rightarrow> s
      | Some f \<Rightarrow>
          if now - answered_sweep_grace < f_mtime f then s
          else if move_fails flt fn then s
          else s\<lparr>answered := dir_del fn (answered s), consumed := dir_put fn f (consumed s)\<rparr>)"

definition sweep_answered :: "faults \<Rightarrow> int \<Rightarrow> approvals \<Rightarrow> approvals" where
  "sweep_answered flt now s =
     fold (sweep_answered_file flt now) (dir_names (answered s)) s"

text \<open>The shared shape of the two prunes: nothing under the cap, else the oldest files go.\<close>

definition prune_entries :: "dir \<Rightarrow> (int \<times> string) list" where
  "prune_entries d =
     sort (map (\<lambda>(fn, f). (f_mtime f, fn)) (filter (\<lambda>(fn, f). is_json fn) (listing d)))"

definition prune_dir :: "faults \<Rightarrow> nat \<Rightarrow> dir \<Rightarrow> dir" where
  "prune_dir flt limit d =
     (let entries = prune_entries d in
      if length entries \<le> limit then d
      else fold (\<lambda>(t, fn) d. if remove_fails flt fn then d else dir_del fn d)
             (take (length entries - limit) entries) d)"

definition prune_consumed :: "faults \<Rightarrow> approvals \<Rightarrow> approvals" where
  "prune_consumed flt s = s\<lparr>consumed := prune_dir flt consumed_keep (consumed s)\<rparr>"

definition prune_quarantine :: "faults \<Rightarrow> approvals \<Rightarrow> approvals" where
  "prune_quarantine flt s = s\<lparr>quarantine := prune_dir flt quarantine_keep (quarantine s)\<rparr>"

definition lock_stem :: "string \<Rightarrow> string" where
  "lock_stem fn = take (length fn - 5) fn"

definition live_stems :: "approvals \<Rightarrow> string list" where
  "live_stems s =
     map stem (filter is_json (dir_names (pending s) @ dir_names (answered s)
       @ dir_names (consumed s) @ dir_names (quarantine s)))"

definition prune_locks :: "faults \<Rightarrow> approvals \<Rightarrow> approvals" where
  "prune_locks flt s =
     s\<lparr>lock_files := filter (\<lambda>fn. \<not> suffix ''.lock'' fn \<or> lock_stem fn \<in> set (live_stems s)
                               \<or> remove_fails flt fn) (lock_files s)\<rparr>"

definition housekeeping :: "faults \<Rightarrow> int \<Rightarrow> approvals \<Rightarrow> approvals" where
  "housekeeping flt now s =
     (let s = sweep_answered flt now s;
          s = prune_consumed flt s;
          s = prune_quarantine flt s;
          s = prune_locks flt s
      in s\<lparr>consumed := sweep_stale_tmp flt now (consumed s)\<rparr>)"

definition housekeeping_if_due :: "faults \<Rightarrow> int \<Rightarrow> int \<Rightarrow> confirmd \<Rightarrow> bool \<times> confirmd" where
  "housekeeping_if_due flt mono_now now c =
     (let run = (True, map_store (housekeeping flt now) (c\<lparr>last_housekeeping := Some mono_now\<rparr>))
      in case last_housekeeping c of
           Some t \<Rightarrow> if mono_now - t < housekeeping_interval then (False, c) else run
         | None \<Rightarrow> run)"

subsection \<open>Lemmas\<close>

lemma fold_dir_del_get:
  "dir_get (fold (\<lambda>(t, fn) d. if bad fn then d else dir_del fn d) xs d) fn =
     (if fn \<in> snd ` set xs \<and> \<not> bad fn then None else dir_get d fn)"
  by (induction xs arbitrary: d) (auto split: prod.splits)

lemma prune_dir_get:
  "dir_get (prune_dir flt limit d) fn \<in> {dir_get d fn, None}"
  by (auto simp: prune_dir_def Let_def fold_dir_del_get)

lemma prune_dir_small: "length (listing d) \<le> n \<Longrightarrow> prune_dir flt n d = d"
  unfolding prune_dir_def prune_entries_def Let_def
  by (simp, meson length_filter_le order_trans)

lemma sweep_stale_tmp_none:
  "(\<And>fn. fn \<in> set (dir_names d) \<Longrightarrow> \<not> suffix ''.tmp'' fn) \<Longrightarrow> sweep_stale_tmp flt now d = d"
proof -
  assume none: "\<And>fn. fn \<in> set (dir_names d) \<Longrightarrow> \<not> suffix ''.tmp'' fn"
  have "fold (\<lambda>fn d. case dir_get d fn of None \<Rightarrow> d
          | Some f \<Rightarrow> if \<not> suffix ''.tmp'' fn \<or> now - f_mtime f < tmp_grace \<or> remove_fails flt fn
                       then d else dir_del fn d) xs d = d" if "set xs \<subseteq> set (dir_names d)" for xs
    using that by (induction xs) (auto simp: none split: option.split)
  then show ?thesis unfolding sweep_stale_tmp_def by simp
qed

lemma housekeeping_quiet:
  assumes "listing (answered s) = []" and "length (listing (consumed s)) \<le> consumed_keep"
    and "length (listing (quarantine s)) \<le> quarantine_keep"
    and "\<And>fn. fn \<in> set (dir_names (consumed s)) \<Longrightarrow> \<not> suffix ''.tmp'' fn"
  shows "housekeeping flt now s = prune_locks flt s"
proof -
  have "sweep_answered flt now s = s"
    using assms(1) by (simp add: sweep_answered_def dir_names_def)
  then show ?thesis
    using assms by (simp add: housekeeping_def prune_consumed_def prune_quarantine_def prune_dir_small
        sweep_stale_tmp_none prune_locks_def)
qed

end
