(* ===== verification/Confirmd_Answer.thy ===== *)
theory Confirmd_Answer
  imports Confirmd_Housekeeping
begin

section \<open>confirmd: answering and re-opening (confirm/confirmd.py)\<close>

text \<open>
  \<open>do_POST\<close>, the answer handler with its mint, and the re-open handler. A handler is a function
  of the clock readings it makes, of the outcome of the file operations and of the mint
  subprocess, and of the state; what other processes do to the pending file during the mint is a
  parameter as well. It returns the response and the new state.
\<close>

subsection \<open>Validating the form\<close>

definition grant_ttl_choices :: "int list" where "grant_ttl_choices = [1, 24]"

definition grant_ttl_default :: int where "grant_ttl_default = 1"

definition parse_grant_ttl :: "string \<Rightarrow> int option" where
  "parse_grant_ttl v =
     (if v = [] then Some grant_ttl_default
      else case py_int v of
        None \<Rightarrow> None
      | Some ttl \<Rightarrow> if ttl \<in> set grant_ttl_choices then Some ttl else None)"

text \<open>The second validation, of the value \<open>do_POST\<close> has parsed.\<close>

definition check_grant_ttl :: "int \<Rightarrow> int option" where
  "check_grant_ttl ttl = (if ttl \<in> set grant_ttl_choices then Some ttl else None)"

definition grant_mint_window :: int where "grant_mint_window = seconds 30"

definition grant_window_ok :: "int \<Rightarrow> item \<Rightarrow> bool" where
  "grant_window_ok now it =
     (case stamp_instant (it_expires it) of
        None \<Rightarrow> True
      | Some e \<Rightarrow> grant_mint_window \<le> e - now)"

subsection \<open>The surroundings of one answer\<close>

datatype removal = Removed | Gone | Remove_Error

record answer_env =
  at_nonce :: int
  at_expiry :: int
  at_answer :: int
  at_window :: int
  mint_runs :: bool
  at_mint :: int
  at_mint_locked :: int
  mint_audit_ok :: bool
  mint_save_ok :: bool
  mint_raises :: bool
  at_recheck :: int
  vanished :: bool
  record_ok :: bool
  removal_is :: removal
  move_ok :: bool
  at_mono :: int
  at_sweep :: int

subsection \<open>The mint\<close>

definition mint_args_of :: "string \<Rightarrow> int \<Rightarrow> item \<Rightarrow> mint_args" where
  "mint_args_of aid ttl it =
     \<lparr>a_credential = or_default (it_credential it) [], a_host = or_default (it_host it) [],
      a_method = str_upper (or_default (it_method it) []),
      a_path_prefix = or_default (it_path_prefix it) ''/'', a_approval_id = aid,
      a_scope = or_default (it_scope it) [], a_job = or_default (it_job it) [],
      a_ttl_hours = ttl, a_approval_expires = it_expires it\<rparr>"

text \<open>
  \<open>subprocess.run\<close> of the grant writer: the exit code, or \<open>None\<close> when the call raises. A call that
  raises (the timeout) may or may not have run the writer to its end.
\<close>

definition run_mint :: "answer_env \<Rightarrow> mint_args \<Rightarrow> confirmd \<Rightarrow> int option \<times> confirmd" where
  "run_mint e a c =
     (let (code, gs) = grant_add (at_mint e) (at_mint_locked e) (mint_audit_ok e)
                         (mint_save_ok e) a (grants_file c);
          c' = (if mint_runs e then c\<lparr>grants_file := gs\<rparr> else c)
      in (if mint_raises e \<or> \<not> mint_runs e then None else Some code, c'))"

text \<open>
  The approve half: \<open>Inl\<close> a response, or \<open>Inr\<close> whether the writer refused for a crossed expiry.
\<close>

definition approve_step ::
  "answer_env \<Rightarrow> string \<Rightarrow> string \<Rightarrow> int \<Rightarrow> item \<Rightarrow> confirmd \<Rightarrow> (response + bool) \<times> confirmd"
where
  "approve_step e login aid ttl it c =
     (if \<not> grant_window_ok (at_window e) it then
        (Inl (Status 410), evict_aid_lock aid
           (audit_log ''approve-refused-expiry-window'' login aid c))
      else if or_default (it_credential it) [] = [] \<or> or_default (it_host it) [] = []
        \<or> str_upper (or_default (it_method it) []) = [] then
        (Inl (Status 400), audit_log ''grant-refused'' login aid c)
      else
        let (code, c1) = run_mint e (mint_args_of aid ttl it) c in
        case code of
          None \<Rightarrow> (Inl (Status 500), audit_log ''grant-failed'' login aid c1)
        | Some n \<Rightarrow>
            if n = 0 then (Inr False, c1)
            else if n = 3 then (Inr True, c1)
            else (Inl (Status 500), audit_log ''grant-failed'' login aid c1))"

subsection \<open>Recording the answer\<close>

definition answered_item ::
  "int \<Rightarrow> string \<Rightarrow> string \<Rightarrow> string option \<Rightarrow> int \<Rightarrow> item \<Rightarrow> item"
where
  "answered_item now login decision requester ttl it =
     it\<lparr>it_csrf_planted := False, it_decision := Some decision, it_answered_at := At now,
        it_answered_by := Some login, it_requester := requester,
        it_ttl_hours := (if decision = ''deny'' then None else Some ttl)\<rparr>"

text \<open>
  From the re-check of the expiry to the redirect. The record is written to \<open>answered/\<close>, the pending
  file removed, and the record moved to \<open>consumed/\<close>, over a record that is there.
\<close>

definition put_answered :: "string \<Rightarrow> file_info \<Rightarrow> confirmd \<Rightarrow> confirmd" where
  "put_answered fn f = map_store (\<lambda>s. s\<lparr>answered := dir_put fn f (answered s)\<rparr>)"

definition move_to_consumed :: "string \<Rightarrow> file_info \<Rightarrow> confirmd \<Rightarrow> confirmd" where
  "move_to_consumed fn f = map_store (\<lambda>s. s\<lparr>answered := dir_del fn (answered s),
     consumed := dir_put fn f (consumed s)\<rparr>)"

definition record_answer ::
  "answer_env \<Rightarrow> faults \<Rightarrow> string \<Rightarrow> string \<Rightarrow> string \<Rightarrow> bool \<Rightarrow> item \<Rightarrow> confirmd
    \<Rightarrow> response \<times> confirmd"
where
  "record_answer e flt login aid decision refused it c0 =
     (let fn = json_name aid;
          c = (if vanished e then remove_pending fn c0 else c0);
          f = \<lparr>f_content = Item it, f_mtime = at_recheck e, f_owner = Some ''swapd''\<rparr>
      in
      if refused \<or> is_expired (at_recheck e) it then
        (Status 410, evict_aid_lock aid (audit_log ''answer-expired-mid-mint'' login aid c))
      else if dir_get (pending (store c)) fn = None then
        (Status 410, evict_aid_lock aid (audit_log ''answer-raced-expiry'' login aid c))
      else if \<not> record_ok e then (Uncaught, c)
      else
        let c1 = put_answered fn f c in
        case removal_is e of
          Remove_Error \<Rightarrow> (Uncaught, c1)
        | Gone \<Rightarrow>
            (Status 404, evict_aid_lock aid
               (audit_log ''answer-raced-consume'' login aid (remove_pending fn c1)))
        | Removed \<Rightarrow>
            let c2 = evict_aid_lock aid (remove_pending fn c1);
                c3 = (if move_ok e then move_to_consumed fn f c2 else c2);
                c4 = snd (housekeeping_if_due flt (at_mono e) (at_sweep e) c3)
            in (See_Other ''/'', audit_log ''answer'' login aid c4))"

subsection \<open>\<open>_answer_locked\<close>\<close>

definition answer_locked ::
  "answer_env \<Rightarrow> faults \<Rightarrow> string \<Rightarrow> string \<Rightarrow> string \<Rightarrow> string \<Rightarrow> int \<Rightarrow> confirmd
    \<Rightarrow> response \<times> confirmd"
where
  "answer_locked e flt login aid csrf decision ttl c =
     (case dir_get (pending (store c)) (json_name aid) of
        None \<Rightarrow> (Status 404, evict_aid_lock aid c)
      | Some f \<Rightarrow>
      (case f_content f of
        Torn \<Rightarrow> (Status 404, evict_aid_lock aid c)
      | content \<Rightarrow>
          if csrf = [] \<or> \<not> nonce_wellformed csrf then (Status 403, audit_log ''403'' login aid c)
          else if \<not> csrf_nonce_ok (at_nonce e) aid csrf c then
            (Status 403, audit_log ''csrf:stale-nonce'' login aid c)
          else if check_grant_ttl ttl = None then (Status 400, c)
          else case content of
            Item it \<Rightarrow>
              if is_expired (at_expiry e) it then
                reap_on_request flt (at_expiry e) login aid f it c
              else if f_owner f \<notin> {Some ''bdrive'', Some ''swapd''} then
                (Status 403, audit_log ''403'' login aid c)
              else
                let it1 = answered_item (at_answer e) login decision (f_owner f) ttl it in
                if decision = ''approve'' then
                  (case approve_step e login aid ttl it1 c of
                     (Inl r, c1) \<Rightarrow> (r, c1)
                   | (Inr refused, c1) \<Rightarrow>
                       record_answer e flt login aid decision refused it1 c1)
                else record_answer e flt login aid decision False it1 c
          | _ \<Rightarrow> (Uncaught, c)))"

subsection \<open>Re-opening a denied approval\<close>

record reopen_env =
  ro_at_index :: int
  ro_at_scan :: int
  ro_at_nonce :: int
  ro_now :: int
  ro_new_aid :: string
  ro_write_ok :: bool
  ro_push_up :: bool

definition reopened_index_ok :: "int \<Rightarrow> string \<Rightarrow> string \<Rightarrow> confirmd \<Rightarrow> bool" where
  "reopened_index_ok now aid new_aid c =
     (case dir_get (pending (store c)) (json_name new_aid) of
        None \<Rightarrow> False
      | Some f \<Rightarrow>
          (case f_content f of
             Item it \<Rightarrow> it_reopened_from it = Some aid \<and> \<not> is_expired now it
           | _ \<Rightarrow> False))"

definition index_reopened :: "string \<Rightarrow> string \<Rightarrow> confirmd \<Rightarrow> confirmd" where
  "index_reopened aid new_aid c =
     c\<lparr>reopened_index := put_evicting 4096 aid new_aid (reopened_index c)\<rparr>"

definition reopened_entry :: "int \<Rightarrow> string \<Rightarrow> string \<times> file_info \<Rightarrow> string option" where
  "reopened_entry now aid = (\<lambda>(name, f).
     if \<not> is_json name then None
     else case f_content f of
       Item it \<Rightarrow>
         if it_reopened_from it \<noteq> Some aid \<or> is_expired now it then None
         else let new_aid = or_default (it_id it) (stem name) in
              if new_aid = [] then None else Some new_aid
     | _ \<Rightarrow> None)"

definition pending_reopened_aid :: "reopen_env \<Rightarrow> string \<Rightarrow> confirmd \<Rightarrow> string option \<times> confirmd"
where
  "pending_reopened_aid e aid c =
     (let hit = or_default (map_of (reopened_index c) aid) [];
          scan = (\<lambda>c. case first_some (reopened_entry (ro_at_scan e) aid) (listing (pending (store c))) of
                         None \<Rightarrow> (None, c)
                       | Some a \<Rightarrow> (Some a, index_reopened aid a c))
      in
      if hit = [] then scan c
      else if reopened_index_ok (ro_at_index e) aid hit c then (Some hit, c)
      else scan (c\<lparr>reopened_index := assoc_delete aid (reopened_index c)\<rparr>))"

text \<open>The re-filed item: the requester's fields and deadline under a new id.\<close>

definition reopened_item :: "int \<Rightarrow> string \<Rightarrow> string \<Rightarrow> item \<Rightarrow> item" where
  "reopened_item now aid new_aid old =
     empty_item\<lparr>it_id := Some new_aid, it_credential := it_credential old, it_host := it_host old,
        it_method := it_method old, it_path_prefix := it_path_prefix old, it_scope := it_scope old,
        it_amount := it_amount old, it_job := it_job old, it_detail := it_detail old,
        it_summary := it_summary old, it_kind := it_kind old, it_created := At now,
        it_expires := (case stamp_instant (it_expires old) of
                         None \<Rightarrow> No_Stamp | Some t \<Rightarrow> At t),
        it_reopened_from := Some aid,
        it_original_requester := Some (or_default (it_requester old) ''unknown'')\<rparr>"

definition history_file :: "string \<Rightarrow> confirmd \<Rightarrow> file_info option" where
  "history_file aid c =
     (case dir_get (consumed (store c)) (json_name aid) of
        Some f \<Rightarrow> Some f
      | None \<Rightarrow> dir_get (answered (store c)) (json_name aid))"

definition refile :: "reopen_env \<Rightarrow> string \<Rightarrow> string \<Rightarrow> item \<Rightarrow> confirmd \<Rightarrow> response \<times> confirmd" where
  "refile e login aid old c =
     (let new_aid = ro_new_aid e; fn = json_name new_aid in
      if is_expired (ro_now e) old then
        (Status 410, audit_log ''reopen-expired'' login aid (evict_aid_lock aid c))
      else if \<not> ro_write_ok e then (Uncaught, c)
      else
        let f = \<lparr>f_content = Item (reopened_item (ro_now e) aid new_aid old), f_mtime = ro_now e,
                 f_owner = Some ''swapd''\<rparr>;
            c1 = map_store (\<lambda>s. s\<lparr>pending := dir_put fn f (pending s)\<rparr>) c;
            c2 = index_reopened aid new_aid c1;
            c3 = evict_aid_lock aid (evict_reopen_nonce aid c2);
            c4 = audit_log ''reopen'' login aid c3;
            c5 = (if ro_push_up e then c4\<lparr>pushed := pushed c4 @ [new_aid]\<rparr> else c4)
        in (See_Other (''/approval/'' @ new_aid), c5))"

definition reopen_locked ::
  "reopen_env \<Rightarrow> string \<Rightarrow> string \<Rightarrow> string \<Rightarrow> confirmd \<Rightarrow> response \<times> confirmd"
where
  "reopen_locked e login aid csrf c =
     (if csrf = [] \<or> \<not> nonce_wellformed csrf then
        (Status 403, evict_aid_lock aid (audit_log ''403'' login aid c))
      else case history_file aid c of
        None \<Rightarrow> (Status 404, evict_aid_lock aid c)
      | Some f \<Rightarrow>
      (case f_content f of
        Item old \<Rightarrow>
          if it_id old \<notin> {None, Some aid} then (Status 404, evict_aid_lock aid c)
          else if it_decision old \<noteq> Some ''deny'' then (Status 400, evict_aid_lock aid c)
          else
            let (existing, c1) = pending_reopened_aid e aid c in
            (case existing of
              Some a \<Rightarrow>
                (See_Other (''/approval/'' @ a),
                 audit_log ''reopen-idempotent'' login aid
                   (evict_aid_lock aid (evict_reopen_nonce aid c1)))
            | None \<Rightarrow>
                if \<not> reopen_nonce_ok (ro_at_nonce e) aid csrf c1 then
                  (Status 403, evict_aid_lock aid (audit_log ''csrf:stale-nonce'' login aid c1))
                else refile e login aid old c1)
      | _ \<Rightarrow> (Status 404, evict_aid_lock aid c)))"

subsection \<open>\<open>do_POST\<close>\<close>

text \<open>
  The login is what \<open>_auth\<close> returned; \<open>p_length\<close> is \<open>None\<close> when the header is no number. The push
  subscription endpoint is a parameter.
\<close>

record post =
  p_path :: string
  p_fetch_site :: string
  p_origin :: string
  p_length :: "int option"
  p_id :: string
  p_csrf :: string
  p_decision :: string
  p_ttl :: string

definition post_paths :: "string list" where
  "post_paths = [''/answer'', ''/reopen'', ''/api/push/subscribe'', ''/api/push/unsubscribe'']"

definition post_refusal :: "string list \<Rightarrow> string \<Rightarrow> post \<Rightarrow> confirmd \<Rightarrow> (response \<times> confirmd) option"
where
  "post_refusal origins login p c =
     (if p_path p \<notin> set post_paths then Some (Status 404, c)
      else if p_fetch_site p \<noteq> [] \<and> p_fetch_site p \<noteq> ''same-origin'' then
        Some (Status 403, audit_log ''403'' login [] c)
      else if p_origin p \<noteq> [] \<and> p_origin p \<notin> set origins then
        Some (Status 403, audit_log ''403'' login [] c)
      else let n = (case p_length p of None \<Rightarrow> 0 | Some n \<Rightarrow> n) in
        if n \<le> 0 \<or> 4096 < n then Some (Status 400, c) else None)"

definition do_POST ::
  "(string \<Rightarrow> confirmd \<Rightarrow> response \<times> confirmd) \<Rightarrow> string list \<Rightarrow> answer_env \<Rightarrow> faults \<Rightarrow> reopen_env
    \<Rightarrow> string \<Rightarrow> post \<Rightarrow> confirmd \<Rightarrow> response \<times> confirmd"
where
  "do_POST push_endpoint origins e flt re login p c =
     (case post_refusal origins login p c of
        Some r \<Rightarrow> r
      | None \<Rightarrow>
        let aid = p_id p in
        if p_path p \<in> {''/api/push/subscribe'', ''/api/push/unsubscribe''} then push_endpoint login c
        else if p_path p = ''/reopen'' then
          if \<not> confirmd_aid_ok aid then (Status 400, c)
          else reopen_locked re login aid (p_csrf p) c
        else if \<not> confirmd_aid_ok aid \<or> p_decision p \<notin> {''approve'', ''deny''} then (Status 400, c)
        else case parse_grant_ttl (p_ttl p) of
          None \<Rightarrow> (Status 400, c)
        | Some ttl \<Rightarrow>
            answer_locked e flt login aid (p_csrf p) (p_decision p) ttl (aid_xlock flt aid c))"

end
