(* ===== verification/Confirmd_Safety.thy ===== *)
theory Confirmd_Safety
  imports Confirmd_Answer
begin

section \<open>confirmd: terminal records are final\<close>

text \<open>
  The invariant of the approvals store that every handler of confirmd keeps, and the step relation
  of the daemon: filers add items under ids never used, handlers run one at a time (each holds
  the locks of its approval), the clock moves forward. A move of the store is \<open>safe\<close> when it keeps
  the invariant and loses no human decision except by pruning its file.
\<close>

subsection \<open>The invariant and safe moves\<close>

definition human_file :: "file_info \<Rightarrow> bool" where
  "human_file f =
     (case f_content f of
        Item it \<Rightarrow> it_decision it = Some ''approve'' \<or> it_decision it = Some ''deny''
      | _ \<Rightarrow> False)"

definition expired_file :: "int \<Rightarrow> file_info \<Rightarrow> bool" where
  "expired_file now f = (case f_content f of Item it \<Rightarrow> is_expired now it | _ \<Rightarrow> False)"

definition store_inv :: "int \<Rightarrow> approvals \<Rightarrow> bool" where
  "store_inv now s \<longleftrightarrow>
     (\<forall>fn p f. dir_get (pending s) fn = Some p \<longrightarrow> dir_get (consumed s) fn = Some f \<longrightarrow>
        expired_file now p \<and> \<not> human_file f) \<and>
     (\<forall>fn. dir_get (answered s) fn \<noteq> None \<longrightarrow>
        dir_get (pending s) fn = None \<and> dir_get (consumed s) fn = None)"

text \<open>A decided file is unchanged or pruned; a name with no file stays without one.\<close>

definition human_kept :: "approvals \<Rightarrow> approvals \<Rightarrow> bool" where
  "human_kept s s' \<longleftrightarrow>
     (\<forall>fn f. dir_get (consumed s) fn = Some f \<longrightarrow> human_file f \<longrightarrow>
        dir_get (pending s') fn = None \<and> dir_get (answered s') fn = None \<and>
        (dir_get (consumed s') fn = Some f \<or> dir_get (consumed s') fn = None))"

definition unused :: "approvals \<Rightarrow> string \<Rightarrow> bool" where
  "unused s fn \<longleftrightarrow> dir_get (pending s) fn = None \<and> dir_get (answered s) fn = None
     \<and> dir_get (consumed s) fn = None"

definition safe :: "int \<Rightarrow> approvals \<Rightarrow> int \<Rightarrow> approvals \<Rightarrow> bool" where
  "safe t s t' s' \<longleftrightarrow>
     (store_inv t s \<longrightarrow>
        store_inv t' s' \<and> human_kept s s' \<and> (\<forall>fn. unused s fn \<longrightarrow> unused s' fn))"

lemma safe_use: "safe t s t' s' \<Longrightarrow> store_inv t s \<Longrightarrow> store_inv t' s' \<and> human_kept s s'"
  by (simp add: safe_def)

lemma expired_file_mono: "expired_file t f \<Longrightarrow> t \<le> t' \<Longrightarrow> expired_file t' f"
  by (auto simp: expired_file_def intro: is_expired_mono split: content.splits)

lemma human_kept_trans:
  assumes "human_kept s s'" and "human_kept s' s''" and "\<And>fn. unused s' fn \<Longrightarrow> unused s'' fn"
  shows "human_kept s s''"
  unfolding human_kept_def
proof (intro allI impI)
  fix fn f
  assume f: "dir_get (consumed s) fn = Some f" "human_file f"
  then have *: "dir_get (pending s') fn = None" "dir_get (answered s') fn = None"
    "dir_get (consumed s') fn = Some f \<or> dir_get (consumed s') fn = None"
    using assms(1) by (auto simp: human_kept_def)
  show "dir_get (pending s'') fn = None \<and> dir_get (answered s'') fn = None \<and>
      (dir_get (consumed s'') fn = Some f \<or> dir_get (consumed s'') fn = None)"
  proof (cases "dir_get (consumed s') fn = Some f")
    case True
    then show ?thesis using assms(2) f(2) by (auto simp: human_kept_def)
  next
    case False
    then have "unused s'' fn" using * by (intro assms(3)) (simp add: unused_def)
    then show ?thesis by (simp add: unused_def)
  qed
qed

lemma safe_trans:
  assumes "safe t s t' s'" and "safe t' s' t'' s''"
  shows "safe t s t'' s''"
  using assms human_kept_trans unfolding safe_def by meson

text \<open>Any move that only removes files is safe.\<close>

lemma safe_shrink:
  assumes "t \<le> t'"
    and "\<And>fn. dir_get (pending s') fn = dir_get (pending s) fn \<or> dir_get (pending s') fn = None"
    and "\<And>fn. dir_get (answered s') fn = dir_get (answered s) fn \<or> dir_get (answered s') fn = None"
    and "\<And>fn. dir_get (consumed s') fn = dir_get (consumed s) fn \<or> dir_get (consumed s') fn = None"
  shows "safe t s t' s'"
proof -
  have "store_inv t' s'" if inv: "store_inv t s"
    unfolding store_inv_def
  proof (intro conjI allI impI)
    fix fn p f assume "dir_get (pending s') fn = Some p" "dir_get (consumed s') fn = Some f"
    then have "dir_get (pending s) fn = Some p" "dir_get (consumed s) fn = Some f"
      using assms(2,4) by (metis option.distinct(1))+
    then show "expired_file t' p" "\<not> human_file f"
      using inv expired_file_mono [OF _ assms(1)] by (auto simp: store_inv_def)
  next
    fix fn assume "dir_get (answered s') fn \<noteq> None"
    then have "dir_get (answered s) fn \<noteq> None" using assms(3) by metis
    then have "dir_get (pending s) fn = None" "dir_get (consumed s) fn = None"
      using inv by (auto simp: store_inv_def)
    then show "dir_get (pending s') fn = None" "dir_get (consumed s') fn = None"
      using assms(2,4) by metis+
  qed
  moreover have "human_kept s s'" if inv: "store_inv t s"
    unfolding human_kept_def
  proof (intro allI impI)
    fix fn f assume f: "dir_get (consumed s) fn = Some f" "human_file f"
    then have "dir_get (pending s) fn = None" "dir_get (answered s) fn = None"
      using inv unfolding store_inv_def by (metis not_None_eq)+
    then show "dir_get (pending s') fn = None \<and> dir_get (answered s') fn = None \<and>
        (dir_get (consumed s') fn = Some f \<or> dir_get (consumed s') fn = None)"
      using assms(2-4) f by metis
  qed
  moreover have "unused s' fn" if "unused s fn" for fn
    using that assms(2-4) unfolding unused_def by metis
  ultimately show ?thesis by (simp add: safe_def)
qed

lemma safe_refl: "t \<le> t' \<Longrightarrow> safe t s t' s"
  by (rule safe_shrink) auto

text \<open>Stamping an expired pending item, by either stamper.\<close>

context write_once begin

lemma safe_stamp:
  assumes "t \<le> t'" and "dir_get (pending s) (json_name aid) = Some f"
    and "f_content f = Item it" and "is_expired t' it"
  shows "safe t s t' (s\<lparr>consumed := snd (stamp_fn w n aid it ow (consumed s))\<rparr>)"
proof -
  let ?d = "snd (stamp_fn w n aid it ow (consumed s))"
  have same: "dir_get ?d fn = dir_get (consumed s) fn"
    if "fn \<noteq> json_name aid \<or> dir_get (consumed s) fn \<noteq> None" for fn
    using that only_name keeps by (metis not_None_eq)
  have nh: "\<not> human_file g" if "dir_get ?d (json_name aid) = Some g"
    "dir_get (consumed s) (json_name aid) = None" for g
    using fresh_expired [OF that(2,1)] by (auto simp: human_file_def)
  show ?thesis
    unfolding safe_def
  proof (intro impI conjI)
    assume inv: "store_inv t s"
    show "store_inv t' (s\<lparr>consumed := ?d\<rparr>)"
      unfolding store_inv_def
    proof (intro conjI allI impI)
      fix fn p g
      assume "dir_get (pending (s\<lparr>consumed := ?d\<rparr>)) fn = Some p"
        and "dir_get (consumed (s\<lparr>consumed := ?d\<rparr>)) fn = Some g"
      then have p: "dir_get (pending s) fn = Some p" and g: "dir_get ?d fn = Some g" by simp_all
      have "expired_file t' p \<and> \<not> human_file g"
      proof (cases "fn = json_name aid \<and> dir_get (consumed s) fn = None")
        case True
        then have "p = f" using p assms(2) by simp
        then have "expired_file t' p" using assms(3,4) by (simp add: expired_file_def)
        moreover have "\<not> human_file g" using True g nh by blast
        ultimately show ?thesis ..
      next
        case False
        then have "dir_get (consumed s) fn = Some g" using same [of fn] g by metis
        then show ?thesis
          using inv p expired_file_mono [OF _ assms(1)] unfolding store_inv_def by blast
      qed
      then show "expired_file t' p" "\<not> human_file g" by simp_all
    next
      fix fn assume "dir_get (answered (s\<lparr>consumed := ?d\<rparr>)) fn \<noteq> None"
      then have "dir_get (pending s) fn = None \<and> dir_get (consumed s) fn = None"
        using inv unfolding store_inv_def by simp
      moreover have "fn \<noteq> json_name aid" using calculation assms(2) by auto
      ultimately show "dir_get (pending (s\<lparr>consumed := ?d\<rparr>)) fn = None"
        "dir_get (consumed (s\<lparr>consumed := ?d\<rparr>)) fn = None"
        using same [of fn] by simp_all
    qed
    show "human_kept s (s\<lparr>consumed := ?d\<rparr>)"
      unfolding human_kept_def
    proof (intro allI impI)
      fix fn g assume g: "dir_get (consumed s) fn = Some g" "human_file g"
      then have "dir_get (pending s) fn = None" "dir_get (answered s) fn = None"
        using inv unfolding store_inv_def by (metis not_None_eq)+
      moreover have "dir_get ?d fn = Some g" using g same [of fn] by simp
      ultimately show "dir_get (pending (s\<lparr>consumed := ?d\<rparr>)) fn = None \<and>
          dir_get (answered (s\<lparr>consumed := ?d\<rparr>)) fn = None \<and>
          (dir_get (consumed (s\<lparr>consumed := ?d\<rparr>)) fn = Some g \<or>
           dir_get (consumed (s\<lparr>consumed := ?d\<rparr>)) fn = None)"
        by simp
    qed
    show "\<forall>fn. unused s fn \<longrightarrow> unused (s\<lparr>consumed := ?d\<rparr>) fn"
    proof (intro allI impI)
      fix fn assume u: "unused s fn"
      then have "fn \<noteq> json_name aid" using assms(2) by (auto simp: unused_def)
      then show "unused (s\<lparr>consumed := ?d\<rparr>) fn"
        using u same [of fn] by (simp add: unused_def)
    qed
  qed
qed

end

text \<open>Moving a record into \<open>consumed/\<close>, where nothing is.\<close>

lemma safe_move:
  assumes "t \<le> t'" and "dir_get (answered s) fn = Some f"
  shows "safe t s t' (s\<lparr>answered := dir_del fn (answered s), consumed := dir_put fn f (consumed s)\<rparr>)"
    (is "safe t s t' ?s'")
  unfolding safe_def
proof (intro impI conjI)
  assume inv: "store_inv t s"
  then have none: "dir_get (pending s) fn = None" "dir_get (consumed s) fn = None"
    using assms(2) by (auto simp: store_inv_def)
  show "store_inv t' ?s'"
    using inv none expired_file_mono [OF _ assms(1)] by (auto simp: store_inv_def)
  show "human_kept s ?s'"
    using inv none by (fastforce simp: human_kept_def store_inv_def)
  show "\<forall>fn'. unused s fn' \<longrightarrow> unused ?s' fn'"
    using assms(2) by (auto simp: unused_def)
qed

text \<open>Recording an answer to an item that has not expired.\<close>

lemma safe_record:
  assumes "t \<le> t'" and "dir_get (pending s) fn = Some p" and "\<not> expired_file t p"
  shows "safe t s t' (s\<lparr>answered := dir_put fn f (answered s), pending := dir_del fn (pending s)\<rparr>)"
    (is "safe t s t' ?s'")
  unfolding safe_def
proof (intro impI conjI)
  assume inv: "store_inv t s"
  then have none: "dir_get (consumed s) fn = None"
    using assms(2,3) by (cases "dir_get (consumed s) fn") (auto simp: store_inv_def)
  show "store_inv t' ?s'"
    using inv none expired_file_mono [OF _ assms(1)] by (auto simp: store_inv_def)
  show "human_kept s ?s'"
    using inv none by (fastforce simp: human_kept_def store_inv_def)
  show "\<forall>fn'. unused s fn' \<longrightarrow> unused ?s' fn'"
    using assms(2) by (auto simp: unused_def)
qed

subsection \<open>Every handler is a safe move\<close>

lemma store_simps [simp]:
  "store (audit_log ev l a c) = store c"
  "store (evict_aid_lock a c) = store c"
  "store (map_store g c) = g (store c)"
  "store (mint_csrf_nonce n x a c) = store c"
  "store (index_reopened a b c) = store c"
  "store (evict_reopen_nonce a c) = store c"
  by (auto simp: audit_log_def evict_aid_lock_def map_store_def mint_csrf_nonce_def Let_def
      index_reopened_def evict_reopen_nonce_def split: option.splits)

lemma store_xlock [simp]:
  "pending (store (aid_xlock flt a c)) = pending (store c)"
  "answered (store (aid_xlock flt a c)) = answered (store c)"
  "consumed (store (aid_xlock flt a c)) = consumed (store c)"
  by (simp_all add: aid_xlock_def)

lemma safe_xlock: "t \<le> t' \<Longrightarrow> safe t (store c) t' (store (aid_xlock flt a c))"
  by (rule safe_shrink) simp_all

lemma safe_remove_pending:
  "t \<le> t' \<Longrightarrow> safe t (store c) t' (store (remove_pending fn c))"
  by (rule safe_shrink) (simp_all add: remove_pending_def)

lemma safe_set_stamp:
  assumes "t \<le> t'" and "dir_get (pending (store c)) (json_name aid) = Some f"
    and "f_content f = Item it" and "is_expired t' it"
    and "confirmd_stamp w n aid it ow (consumed (store c)) = (r, d)"
  shows "safe t (store c) t' (store (set_consumed d c))"
  using confirmd_stamps.safe_stamp [OF assms(1-4), of w n ow] assms(5) by (simp add: set_consumed_def)

lemma fold_safe:
  assumes "\<And>x s. safe t s t (g x s)"
  shows "safe t s t (fold g xs s)"
  by (induction xs arbitrary: s) (auto intro: safe_trans assms safe_refl)

lemma fold_shrinks:
  assumes "\<And>x d. dir_get (g x d) fn = dir_get d fn \<or> dir_get (g x d) fn = None"
  shows "dir_get (fold g xs d) fn = dir_get d fn \<or> dir_get (fold g xs d) fn = None"
proof (induction xs arbitrary: d)
  case (Cons x xs)
  then show ?case using Cons.IH [of "g x d"] assms [of x d] by fastforce
qed simp

lemma sweep_stale_tmp_get:
  "dir_get (sweep_stale_tmp flt now d) fn = dir_get d fn \<or> dir_get (sweep_stale_tmp flt now d) fn = None"
  unfolding sweep_stale_tmp_def by (rule fold_shrinks) (simp split: option.splits)

lemma prune_dir_shrinks:
  "dir_get (prune_dir flt n d) fn = dir_get d fn \<or> dir_get (prune_dir flt n d) fn = None"
  using prune_dir_get [of flt n d fn] by simp

lemma safe_sweep_answered: "safe t s t (sweep_answered flt now s)"
proof -
  have "safe t s t (sweep_answered_file flt now fn s)" for fn s
    by (auto simp: sweep_answered_file_def safe_refl safe_move split: option.splits)
  then show ?thesis unfolding sweep_answered_def by (rule fold_safe)
qed

lemma safe_housekeeping: "safe t s t (housekeeping flt now s)"
proof -
  let ?s1 = "sweep_answered flt now s"
  have "safe t ?s1 t (housekeeping flt now s)"
    unfolding housekeeping_def Let_def prune_locks_def prune_consumed_def prune_quarantine_def
    by (rule safe_shrink; simp; metis sweep_stale_tmp_get prune_dir_shrinks)
  then show ?thesis by (rule safe_trans [OF safe_sweep_answered])
qed

lemma safe_housekeeping_if_due:
  "safe t (store c) t (store (snd (housekeeping_if_due flt m now c)))"
  using safe_housekeeping safe_refl
  by (auto simp: housekeeping_if_due_def Let_def map_store_def split: option.splits)

lemma safe_reap_on_request:
  assumes "t \<le> t'" and "dir_get (pending (store c)) (json_name aid) = Some f"
    and "f_content f = Item it" and "is_expired t' it"
  shows "safe t (store c) t' (store (snd (reap_on_request flt now login aid f it c)))"
proof -
  obtain r d where rd: "confirmd_stamp (\<not> write_fails flt (json_name aid)) now aid it (f_owner f)
      (consumed (store c)) = (r, d)" by force
  have "safe t (store c) t' (store (set_consumed d c))"
    by (rule safe_set_stamp [OF assms rd])
  then have "safe t (store c) t' (store (remove_pending (json_name aid) (set_consumed d c)))"
    by (rule safe_trans [OF _ safe_remove_pending [OF order_refl]])
  with \<open>safe t (store c) t' (store (set_consumed d c))\<close> show ?thesis
    using rd assms(1) by (auto simp: reap_on_request_def Let_def safe_refl)
qed

lemma safe_reap_expired_file:
  assumes "t \<le> t'" and "is_json fn" and "dir_get (pending (store c)) fn = Some f"
    and "f_content f = Item it" and "is_expired t' it"
  shows "safe t (store c) t' (store (reap_expired_file flt now fn f it c))"
proof -
  let ?c = "aid_xlock flt (stem fn) c"
  obtain r d where rd: "confirmd_stamp (\<not> write_fails flt fn) now (stem fn) it (f_owner f)
      (consumed (store ?c)) = (r, d)" by force
  have "safe t' (store ?c) t' (store (set_consumed d ?c))"
    by (rule safe_set_stamp [OF _ _ assms(4,5) rd]) (simp_all add: assms)
  then have 1: "safe t (store c) t' (store (set_consumed d ?c))"
    by (rule safe_trans [OF safe_xlock [OF assms(1)]])
  then have 2: "safe t (store c) t' (store (remove_pending fn (set_consumed d ?c)))"
    by (rule safe_trans [OF _ safe_remove_pending [OF order_refl]])
  show ?thesis
    using 1 2 rd assms(1)
    by (auto simp: reap_expired_file_def Let_def safe_refl safe_remove_pending safe_xlock
        simp del: store_xlock)
qed

lemma safe_load_pending_file:
  "safe t (store c) t (store (snd (load_pending_file flt t fn c)))"
proof -
  have "safe t (store c) t (store (snd (quarantine_corrupt_pending flt t fn f c)))" for f
    unfolding quarantine_corrupt_pending_def by (rule safe_shrink) auto
  then show ?thesis
    by (auto simp: load_pending_file_def safe_refl safe_reap_expired_file
        split: option.splits content.splits)
qed

lemma safe_load_pending_files:
  "safe t (store c) t (store (snd (load_pending_files flt t fns c)))"
proof (induction flt t fns c rule: load_pending_files.induct)
  case (2 flt t fn fns c)
  have "safe t (store (snd (load_pending_file flt t fn c))) t
      (store (snd (load_pending_files flt t fns (snd (load_pending_file flt t fn c)))))"
    by (rule "2.IH" [OF refl prod.collapse])
  from safe_trans [OF safe_load_pending_file this] show ?case
    by (simp add: split_beta Let_def)
qed (simp add: safe_refl)

lemma safe_load_pending: "safe t (store c) t (store (snd (load_pending flt t c)))"
proof -
  let ?c1 = "map_store (\<lambda>s. s\<lparr>pending := sweep_stale_tmp flt t (pending s)\<rparr>) c"
  have "safe t (store c) t (store ?c1)"
    by (rule safe_shrink) (simp_all add: sweep_stale_tmp_get)
  from safe_trans [OF this safe_load_pending_files] show ?thesis
    by (simp add: load_pending_def Let_def)
qed

lemma safe_get_approval:
  assumes "t \<le> now"
  shows "safe t (store c) now (store (snd (get_approval flt now nonce login aid c)))"
proof -
  let ?c = "aid_xlock flt aid c"
  have lock: "safe t (store c) now (store ?c)" using assms by (rule safe_xlock)
  have "safe now (store ?c) now (store (snd (reap_on_request flt now login aid f it ?c)))"
    if "dir_get (pending (store ?c)) (json_name aid) = Some f" "f_content f = Item it"
      "is_expired now it" for f it
    using that by (intro safe_reap_on_request) simp_all
  from safe_trans [OF lock this] show ?thesis
    using assms lock
    by (auto simp: get_approval_def Let_def safe_refl simp del: store_xlock
        split: option.splits content.splits)
qed

lemma store_run_mint [simp]: "store (snd (run_mint e a c)) = store c"
  by (simp add: run_mint_def Let_def split_beta)

lemma store_approve_step [simp]: "store (snd (approve_step e login aid ttl it c)) = store c"
  by (auto simp: approve_step_def Let_def split_beta split: option.splits)

lemma approve_step_store: "approve_step e login aid ttl it c = (r, c1) \<Longrightarrow> store c1 = store c"
  using store_approve_step [of e login aid ttl it c] by simp

lemma is_expired_answered [simp]:
  "is_expired n (answered_item t l d r ttl it) = is_expired n it"
  by (simp add: answered_item_def is_expired_def)

lemma safe_record_answer:
  assumes "t \<le> at_recheck e" and "removal_is e \<noteq> Remove_Error"
    and "dir_get (pending (store c)) (json_name aid) = Some p" and "f_content p = Item it0"
    and "\<And>n. is_expired n it = is_expired n it0"
  shows "safe t (store c) (at_recheck e)
    (store (snd (record_answer e flt login aid decision refused it c)))"
proof -
  let ?fn = "json_name aid" and ?t = "at_recheck e"
  let ?c = "if vanished e then remove_pending ?fn c else c"
  let ?f = "\<lparr>f_content = Item it, f_mtime = ?t, f_owner = Some ''swapd''\<rparr>"
  let ?c1 = "put_answered ?fn ?f ?c"
  have vanish: "safe t (store c) ?t (store ?c)"
    using assms(1) safe_remove_pending safe_refl by auto
  show ?thesis
  proof (cases "refused \<or> is_expired ?t it \<or> dir_get (pending (store ?c)) ?fn = None \<or> \<not> record_ok e")
    case True
    then show ?thesis using vanish by (auto simp: record_answer_def Let_def)
  next
    case False
    then have still: "dir_get (pending (store ?c)) ?fn = Some p" and live: "\<not> expired_file ?t p"
      using assms(3-5) by (auto simp: remove_pending_def expired_file_def split: if_splits)
    have rec: "safe t (store c) ?t (store (remove_pending ?fn ?c1))"
      using safe_trans [OF vanish safe_record [OF order_refl still live, where f = ?f]]
      by (simp add: put_answered_def remove_pending_def)
    let ?c2 = "evict_aid_lock aid (remove_pending ?fn ?c1)"
    have "safe ?t (store ?c2) ?t (store (move_to_consumed ?fn ?f ?c2))"
      using safe_move [of ?t ?t "store ?c2" ?fn ?f]
      by (simp add: move_to_consumed_def put_answered_def remove_pending_def)
    then have mv: "safe t (store c) ?t (store (if move_ok e then move_to_consumed ?fn ?f ?c2 else ?c2))"
      using safe_trans [OF rec, of ?t] rec by simp
    show ?thesis
      using False assms(2) rec safe_trans [OF mv safe_housekeeping_if_due]
      by (cases "removal_is e") (auto simp: record_answer_def Let_def)
  qed
qed

lemma safe_if:
  assumes "b \<Longrightarrow> safe t s t' (store (snd x))" and "\<not> b \<Longrightarrow> safe t s t' (store (snd y))"
  shows "safe t s t' (store (snd (if b then x else y)))"
  using assms by simp

lemma safe_answer_locked:
  assumes "t \<le> at_expiry e" and "at_expiry e \<le> at_recheck e" and "removal_is e \<noteq> Remove_Error"
  shows "safe t (store c) (at_recheck e)
    (store (snd (answer_locked e flt login aid csrf decision ttl c)))"
proof -
  have le: "t \<le> at_recheck e" using assms by simp
  have reap: "safe t (store c) (at_recheck e)
      (store (snd (reap_on_request flt (at_expiry e) login aid f it c)))"
    if "dir_get (pending (store c)) (json_name aid) = Some f" "f_content f = Item it"
      "is_expired (at_expiry e) it" for f it
    using safe_reap_on_request [OF assms(1) that] safe_refl [OF assms(2)] safe_trans by blast
  have rec: "safe t (store c) (at_recheck e) (store (snd (record_answer e flt login aid decision refused
      (answered_item (at_answer e) login decision ow ttl it) c1)))"
    if "dir_get (pending (store c)) (json_name aid) = Some f" "f_content f = Item it"
      "store c1 = store c" for f it c1 refused ow
    using safe_record_answer [OF le assms(3), of c1 aid f it] that by simp
  have appr: "safe t (store c) (at_recheck e) (store (snd (case approve_step e login aid ttl
      (answered_item (at_answer e) login decision ow ttl it) c of (Inl r, c1) \<Rightarrow> (r, c1)
      | (Inr refused, c1) \<Rightarrow> record_answer e flt login aid decision refused
          (answered_item (at_answer e) login decision ow ttl it) c1)))"
    if "dir_get (pending (store c)) (json_name aid) = Some f" "f_content f = Item it" for f it ow
    using rec [OF that] approve_step_store safe_refl [OF le] that
    by (auto split: prod.splits sum.splits)
  show ?thesis
  proof (cases "\<exists>f it. dir_get (pending (store c)) (json_name aid) = Some f \<and> f_content f = Item it")
    case False
    then show ?thesis using le
      by (auto simp: answer_locked_def Let_def safe_refl split: option.splits content.splits)
  next
    case True
    then obtain f it where f: "dir_get (pending (store c)) (json_name aid) = Some f"
      "f_content f = Item it" by blast
    show ?thesis
      unfolding answer_locked_def f content.case option.case Let_def
      by (intro safe_if reap [OF f] rec [OF f refl] appr [OF f]) (simp_all add: safe_refl le)
  qed
qed

subsection \<open>Filing and re-opening\<close>

definition file_pending :: "string \<Rightarrow> file_info \<Rightarrow> confirmd \<Rightarrow> confirmd" where
  "file_pending fn f = map_store (\<lambda>s. s\<lparr>pending := dir_put fn f (pending s)\<rparr>)"

lemma inv_file_pending:
  assumes "unused (store c) fn" and "t \<le> t'" and "store_inv t (store c)"
  shows "store_inv t' (store (file_pending fn f c)) \<and> human_kept (store c) (store (file_pending fn f c))"
  using assms expired_file_mono [OF _ assms(2)]
  by (fastforce simp: store_inv_def human_kept_def unused_def file_pending_def)

lemma pending_reopened_aid_store [simp]:
  "store (snd (pending_reopened_aid e aid c)) = store c"
  by (auto simp: pending_reopened_aid_def Let_def split: option.splits)

lemma refile_store:
  "store (snd (refile e login aid old c)) = store c
    \<or> (\<exists>f. store (snd (refile e login aid old c)) = store (file_pending (json_name (ro_new_aid e)) f c))"
  by (auto simp: refile_def Let_def file_pending_def)

lemma reopen_store:
  "store (snd (reopen_locked e login aid csrf c)) = store c
    \<or> (\<exists>f. store (snd (reopen_locked e login aid csrf c))
          = store (file_pending (json_name (ro_new_aid e)) f c))"
proof -
  have "store (snd (refile e login aid old c1)) = store c
      \<or> (\<exists>f. store (snd (refile e login aid old c1)) = store (file_pending (json_name (ro_new_aid e)) f c))"
    if "store c1 = store c" for old c1
    using refile_store [of e login aid old c1] that by (simp add: file_pending_def)
  then show ?thesis
    by (simp add: reopen_locked_def split_beta Let_def split: option.split content.split)
qed

subsection \<open>The daemon as a step relation\<close>

inductive confirmd_step :: "int \<times> confirmd \<Rightarrow> int \<times> confirmd \<Rightarrow> bool" where
  tick: "t \<le> t' \<Longrightarrow> confirmd_step (t, c) (t', c)"
| filed: "unused (store c) fn \<Longrightarrow> confirmd_step (t, c) (t, file_pending fn f c)"
| removed: "confirmd_step (t, c) (t, remove_pending fn c)"
| proxy_reaped: "dir_get (pending (store c)) (json_name aid) = Some f \<Longrightarrow> f_content f = Item it \<Longrightarrow>
    is_expired t it \<Longrightarrow>
    confirmd_step (t, c)
      (t, set_consumed (snd (proxy_stamp ok t aid it (f_owner f) (consumed (store c)))) c)"
| rendered: "confirmd_step (t, c) (t, snd (load_pending flt t c))"
| shown: "t \<le> now \<Longrightarrow> confirmd_step (t, c) (now, snd (get_approval flt now nonce login aid c))"
| posted: "(\<And>l d. store (snd (pe l d)) = store d) \<Longrightarrow>
    t \<le> at_expiry e \<Longrightarrow> at_expiry e \<le> at_recheck e \<Longrightarrow> removal_is e \<noteq> Remove_Error \<Longrightarrow>
    unused (store c) (json_name (ro_new_aid re)) \<Longrightarrow>
    confirmd_step (t, c) (at_recheck e, snd (do_POST pe origins e flt re login p c))"

inductive_cases confirmd_stepE: "confirmd_step (t, c) (t', c')"

definition reachable :: "int \<times> confirmd \<Rightarrow> bool" where
  "reachable tc \<longleftrightarrow> (\<exists>t0. confirmd_step\<^sup>*\<^sup>* (t0, init_confirmd) tc)"

lemma inv_post:
  assumes pe: "\<And>l d. store (snd (pe l d)) = store d"
    and le: "t \<le> at_expiry e" "at_expiry e \<le> at_recheck e" "removal_is e \<noteq> Remove_Error"
    and un: "unused (store c) (json_name (ro_new_aid re))" and inv: "store_inv t (store c)"
  shows "store_inv (at_recheck e) (store (snd (do_POST pe origins e flt re login p c))) \<and>
    human_kept (store c) (store (snd (do_POST pe origins e flt re login p c)))"
proof -
  let ?ok = "\<lambda>r. store_inv (at_recheck e) (store (snd r)) \<and> human_kept (store c) (store (snd r))"
  have t: "t \<le> at_recheck e" using le by simp
  have same: "?ok r" if "store (snd r) = store c" for r
    using safe_refl [OF t, of "store c"] inv that by (simp add: safe_def)
  have id: "store_inv (at_recheck e) (store c)" "human_kept (store c) (store c)"
    using same [of "(undefined, c)"] by simp_all
  have reopen: "?ok (reopen_locked re login aid csrf c)" for aid csrf
    using reopen_store [of re login aid csrf c]
  proof
    assume "\<exists>f. store (snd (reopen_locked re login aid csrf c))
        = store (file_pending (json_name (ro_new_aid re)) f c)"
    then show ?thesis using inv_file_pending [OF un t inv] by auto
  qed (rule same)
  have answer: "?ok (answer_locked e flt login aid csrf d ttl (aid_xlock flt aid c))" for aid csrf d ttl
    using safe_trans [OF safe_xlock [OF order_refl] safe_answer_locked [OF le]] inv
    by (simp add: safe_def)
  have refusal: "?ok r" if "post_refusal origins login p c = Some r" for r
    using that by (intro same) (auto simp: post_refusal_def Let_def split: if_splits)
  have if_ok: "?ok (if b then x else y)" if "?ok x" "?ok y" for b x y using that by simp
  show ?thesis
    unfolding do_POST_def Let_def
    by (cases "post_refusal origins login p c"; cases "parse_grant_ttl (p_ttl p)"; 
        simp only: option.case refusal; intro if_ok)
      (simp_all add: pe refusal reopen answer id)
qed

lemma step_inv:
  assumes "confirmd_step (t, c) (t', c')" and inv: "store_inv t (store c)"
  shows "store_inv t' (store c') \<and> human_kept (store c) (store c')"
  using assms(1)
proof (cases rule: confirmd_step.cases)
  case (filed fn f)
  then show ?thesis using inv_file_pending inv by blast
next
  case (proxy_reaped aid f it ok)
  then show ?thesis
    using proxy_stamps.safe_stamp [of t t "store c" aid f it ok t "f_owner f"] inv
    by (simp add: safe_def set_consumed_def)
next
  case (posted e re pe origins flt login p)
  then show ?thesis using inv_post inv by blast
next
  case (removed fn)
  then show ?thesis using safe_use [OF safe_remove_pending [OF order_refl] inv] by simp
next
  case (tick)
  then show ?thesis using safe_use [OF safe_refl inv] by simp
next
  case (rendered flt)
  then show ?thesis using safe_use [OF safe_load_pending inv] by simp
next
  case shown
  then show ?thesis using safe_use [OF safe_get_approval inv] by simp
qed

lemma reachable_inv: "reachable (t, c) \<Longrightarrow> store_inv t (store c)"
proof -
  assume "reachable (t, c)"
  then obtain t0 where "confirmd_step\<^sup>*\<^sup>* (t0, init_confirmd) (t, c)" by (auto simp: reachable_def)
  then show ?thesis
  proof (induction "(t, c)" arbitrary: t c rule: rtranclp_induct)
    case base
    then show ?case by (simp add: store_inv_def init_confirmd_def empty_approvals_def)
  next
    case (step y)
    then show ?case using step_inv by (cases y) blast
  qed
qed

subsection \<open>Which handlers change the grants\<close>

lemma grants_simps [simp]:
  "grants_file (audit_log ev l a c) = grants_file c"
  "grants_file (evict_aid_lock a c) = grants_file c"
  "grants_file (map_store g c) = grants_file c"
  "grants_file (mint_csrf_nonce n x a c) = grants_file c"
  "grants_file (index_reopened a b c) = grants_file c"
  "grants_file (evict_reopen_nonce a c) = grants_file c"
  "grants_file (remove_pending fn c) = grants_file c"
  "grants_file (set_consumed d c) = grants_file c"
  "grants_file (put_answered fn f c) = grants_file c"
  "grants_file (move_to_consumed fn f c) = grants_file c"
  "grants_file (aid_xlock flt a c) = grants_file c"
  "grants_file (snd (housekeeping_if_due flt m now c)) = grants_file c"
  by (auto simp: audit_log_def evict_aid_lock_def map_store_def mint_csrf_nonce_def Let_def
      index_reopened_def evict_reopen_nonce_def remove_pending_def set_consumed_def put_answered_def
      move_to_consumed_def aid_xlock_def housekeeping_if_due_def split: option.splits)

lemma grants_record_answer [simp]:
  "grants_file (snd (record_answer e flt l aid d r it c)) = grants_file c"
  by (simp add: record_answer_def Let_def split: removal.split)

lemma grants_reap_on_request [simp]:
  "grants_file (snd (reap_on_request flt now l aid f it c)) = grants_file c"
  by (simp add: reap_on_request_def split_beta Let_def)

lemma grants_pending_reopened_aid [simp]:
  "grants_file (snd (pending_reopened_aid e aid c)) = grants_file c"
  by (auto simp: pending_reopened_aid_def Let_def split: option.splits)

lemma grants_reopen_locked [simp]:
  "grants_file (snd (reopen_locked e l aid csrf c)) = grants_file c"
  by (auto simp: reopen_locked_def refile_def split_beta Let_def split: option.splits content.splits)

lemma approve_step_mints:
  assumes "grants_file (snd (approve_step e l aid ttl it c)) \<noteq> grants_file c"
  shows "grant_window_ok (at_window e) it \<and> or_default (it_credential it) [] \<noteq> [] \<and>
    or_default (it_host it) [] \<noteq> [] \<and> or_default (it_method it) [] \<noteq> [] \<and>
    grant_add (at_mint e) (at_mint_locked e) (mint_audit_ok e) (mint_save_ok e) (mint_args_of aid ttl it)
      (grants_file c) = (0, grants_file (snd (approve_step e l aid ttl it c)))"
proof -
  obtain code gs where g: "grant_add (at_mint e) (at_mint_locked e) (mint_audit_ok e) (mint_save_ok e)
      (mint_args_of aid ttl it) (grants_file c) = (code, gs)" by force
  have "code = 0 \<or> gs = grants_file c" using grant_add_nonzero [OF g] by blast
  then show ?thesis
    using assms g by (auto simp: approve_step_def run_mint_def Let_def str_upper_def split: option.splits if_splits)
qed

text \<open>What an answer that changes the grants has passed.\<close>

lemma answer_locked_mints:
  assumes "grants_file (snd (answer_locked e flt l aid csrf d ttl c)) \<noteq> grants_file c"
  obtains f it where "dir_get (pending (store c)) (json_name aid) = Some f" and "f_content f = Item it"
    and "nonce_wellformed csrf" and "csrf_nonce_ok (at_nonce e) aid csrf c" and "d = ''approve''"
    and "\<not> is_expired (at_expiry e) it" and "f_owner f \<in> {Some ''bdrive'', Some ''swapd''}"
    and "ttl \<in> set grant_ttl_choices" and "grant_window_ok (at_window e) it"
    and "or_default (it_credential it) [] \<noteq> []" and "or_default (it_host it) [] \<noteq> []"
    and "or_default (it_method it) [] \<noteq> []"
    and "grant_add (at_mint e) (at_mint_locked e) (mint_audit_ok e) (mint_save_ok e)
      (mint_args_of aid ttl it) (grants_file c)
      = (0, grants_file (snd (answer_locked e flt l aid csrf d ttl c)))"
proof (cases "dir_get (pending (store c)) (json_name aid)")
  case None
  then show ?thesis using assms by (simp add: answer_locked_def)
next
  case (Some f)
  show ?thesis
  proof (cases "f_content f")
    case (Item it)
    let ?it = "answered_item (at_answer e) l d (f_owner f) ttl it"
    have *: "grants_file (snd (case x of (Inl r, c1) \<Rightarrow> (r, c1)
        | (Inr refused, c1) \<Rightarrow> record_answer e flt l aid d refused it' c1)) = grants_file (snd x)"
      for x it' d
      by (simp split: prod.split sum.split)
    have same: "mint_args_of aid ttl ?it = mint_args_of aid ttl it"
      "it_credential ?it = it_credential it" "it_host ?it = it_host it" "it_method ?it = it_method it"
      "grant_window_ok n ?it = grant_window_ok n it" for n
      by (simp_all add: mint_args_of_def answered_item_def grant_window_ok_def)
    have g: "csrf \<noteq> []" "nonce_wellformed csrf" "csrf_nonce_ok (at_nonce e) aid csrf c"
      "check_grant_ttl ttl \<noteq> None" "\<not> is_expired (at_expiry e) it"
      "f_owner f \<in> {Some ''bdrive'', Some ''swapd''}" "d = ''approve''"
      using assms by (auto simp: answer_locked_def Some Item Let_def split: if_splits)
    from g(4) obtain y where y: "check_grant_ttl ttl = Some y" by blast
    have eq: "grants_file (snd (answer_locked e flt l aid csrf d ttl c))
        = grants_file (snd (approve_step e l aid ttl ?it c))"
      unfolding answer_locked_def Some Item option.case content.case Let_def g(7)
      using g(1-3,5,6) y by (simp only: * simp_thms if_True if_False option.distinct not_not)
    show ?thesis
      using that [OF Some Item g(2,3,7,5,6)] approve_step_mints [of e l aid ttl ?it c] assms g(4)
      by (auto simp: eq same check_grant_ttl_def split: if_splits)
  qed (use assms Some in \<open>auto simp: answer_locked_def Let_def split: if_splits\<close>)
qed

end
