(* ===== verification/Confirmd_Run.thy ===== *)
theory Confirmd_Run
  imports Confirmd_Safety
begin

section \<open>confirmd: a worked run and the properties of the handlers\<close>

text \<open>
  One approval followed from its filing to its answer, evaluated step by step, and the properties
  of confirmd with their instances on that run.
\<close>

subsection \<open>A run\<close>

definition sample_item :: item where
  "sample_item = empty_item\<lparr>it_id := Some ''a1'', it_credential := Some ''stripe'',
     it_host := Some ''api.stripe.com'', it_method := Some ''post'', it_expires := At (seconds 600)\<rparr>"

definition sample_file :: file_info where
  "sample_file = \<lparr>f_content = Item sample_item, f_mtime = 0, f_owner = Some ''bdrive''\<rparr>"

definition sample_nonce :: string where "sample_nonce = replicate 32 CHR ''n''"

definition sample_env :: answer_env where
  "sample_env = \<lparr>at_nonce = seconds 5, at_expiry = seconds 5, at_answer = seconds 5, at_window = seconds 5,
     mint_runs = True, at_mint = seconds 6, at_mint_locked = seconds 6, mint_audit_ok = True,
     mint_save_ok = True, mint_raises = False, at_recheck = seconds 7, vanished = False, record_ok = True,
     removal_is = Removed, move_ok = True, at_mono = 0, at_sweep = seconds 7\<rparr>"

definition sample_reopen_env :: reopen_env where
  "sample_reopen_env = \<lparr>ro_at_index = seconds 20, ro_at_scan = seconds 20, ro_at_nonce = seconds 20,
     ro_now = seconds 20, ro_new_aid = ''b2'', ro_write_ok = True, ro_push_up = True\<rparr>"

definition sample_post :: "string \<Rightarrow> post" where
  "sample_post d = \<lparr>p_path = ''/answer'', p_fetch_site = [], p_origin = [], p_length = Some 80,
     p_id = ''a1'', p_csrf = sample_nonce, p_decision = d, p_ttl = ''24''\<rparr>"

definition filed_sample :: confirmd where
  "filed_sample = file_pending (json_name ''a1'') sample_file init_confirmd"

definition shown_sample :: confirmd where
  "shown_sample = snd (get_approval no_faults (seconds 1) sample_nonce ''owner'' ''a1'' filed_sample)"

definition answered_sample :: "string \<Rightarrow> response \<times> confirmd" where
  "answered_sample d = do_POST (\<lambda>_ c. (Status 204, c)) [] sample_env no_faults sample_reopen_env ''owner''
     (sample_post d) shown_sample"

lemma sample_nonce_nonempty: "sample_nonce \<noteq> []" by (simp add: sample_nonce_def)

lemmas sample_defs = sample_item_def sample_file_def sample_env_def sample_post_def
lemmas state_defs = Let_def sample_nonce_nonempty file_pending_def map_store_def remove_pending_def set_consumed_def audit_log_def
  evict_aid_lock_def dir_put_def dir_del_def dir_get_def assoc_delete_def put_answered_def move_to_consumed_def

lemma aid_a1: "confirmd_aid_ok ''a1''"
  by (simp add: confirmd_aid_ok_def py_eval)

lemma nonce_ok: "nonce_wellformed sample_nonce"
  by (simp add: nonce_wellformed_def sample_nonce_def py_eval numeral_eq_Suc)

lemma filed_sample_eq: "filed_sample = init_confirmd\<lparr>store := empty_approvals\<lparr>pending :=
   \<lparr>listing = [(''a1.json'', sample_file)], version = 1\<rparr>\<rparr>\<rparr>"
  by (simp add: filed_sample_def state_defs init_confirmd_def empty_approvals_def empty_dir_def json_name_def)

lemma shown_sample_eq: "shown_sample = filed_sample\<lparr>
    store := (store filed_sample)\<lparr>lock_files := [''a1.lock'']\<rparr>,
    csrf_rings := [(''a1'', [\<lparr>n_nonce = sample_nonce, n_ts = seconds 1\<rparr>])]\<rparr>"
  by (simp add: shown_sample_def get_approval_def aid_a1 filed_sample_eq state_defs aid_xlock_def
      no_faults_def lock_name_def json_name_def sample_file_def is_expired_def sample_item_def seconds_def
      mint_csrf_nonce_def init_confirmd_def empty_approvals_def put_evicting_def csrf_aid_cap_def)


lemma ttl_24: "parse_grant_ttl ''24'' = Some 24"
  by (simp add: parse_grant_ttl_def py_int_def unsigned_int_def py_eval grant_ttl_choices_def)


definition sample_decided :: "string \<Rightarrow> file_info" where
  "sample_decided d = \<lparr>f_content = Item (answered_item (seconds 5) ''owner'' d (Some ''bdrive'') 24 sample_item),
     f_mtime = seconds 7, f_owner = Some ''swapd''\<rparr>"

definition decided_store :: "string \<Rightarrow> approvals" where
  "decided_store d = \<lparr>pending = \<lparr>listing = [], version = 2\<rparr>, answered = \<lparr>listing = [], version = 2\<rparr>,
     consumed = \<lparr>listing = [(''a1.json'', sample_decided d)], version = 1\<rparr>, quarantine = empty_dir,
     lock_files = [''a1.lock'']\<rparr>"

lemma decided_store_quiet: "housekeeping no_faults now (decided_store d) = decided_store d"
proof -
  have "housekeeping no_faults now (decided_store d) = prune_locks no_faults (decided_store d)"
    by (rule housekeeping_quiet) (simp_all add: decided_store_def consumed_keep_def quarantine_keep_def
      empty_dir_def dir_names_def suffix_to_prefix)
  also have "\<dots> = decided_store d"
    by (simp add: prune_locks_def decided_store_def live_stems_def dir_names_def empty_dir_def is_json_def
       suffix_to_prefix stem_def lock_stem_def no_faults_def)
  finally show ?thesis .
qed

lemma sample_env_sel:
  "at_expiry sample_env = seconds 5" "at_nonce sample_env = seconds 5" "at_answer sample_env = seconds 5"
  "at_recheck sample_env = seconds 7" "\<not> vanished sample_env" "record_ok sample_env"
  "removal_is sample_env = Removed" "move_ok sample_env" "at_mono sample_env = 0"
  "at_sweep sample_env = seconds 7" "at_window sample_env = seconds 5"
  by (simp_all add: sample_env_def)

lemma record_sample:
  "record_answer sample_env no_faults ''owner'' ''a1'' d False
      (answered_item (seconds 5) ''owner'' d (Some ''bdrive'') 24 sample_item) (shown_sample\<lparr>grants_file := gs\<rparr>)
    = (See_Other ''/'', init_confirmd\<lparr>store := decided_store d, grants_file := gs,
         trail := [Audit ''answer'' ''owner'' ''a1''], last_housekeeping := Some 0\<rparr>)"
proof -
  let ?it = "answered_item (seconds 5) ''owner'' d (Some ''bdrive'') 24 sample_item"
  let ?c2 = "evict_aid_lock ''a1'' (remove_pending ''a1.json'' (put_answered ''a1.json'' (sample_decided d) 
     (shown_sample\<lparr>grants_file := gs\<rparr>)))"
  have 1: "move_to_consumed ''a1.json'' (sample_decided d) ?c2
      = init_confirmd\<lparr>store := decided_store d, grants_file := gs\<rparr>"
    by (simp add: state_defs shown_sample_eq filed_sample_eq decided_store_def empty_approvals_def empty_dir_def init_confirmd_def
     numeral_eq_Suc)
  have 2: "\<not> is_expired (seconds 7) ?it"
    by (simp add: is_expired_def answered_item_def sample_item_def seconds_def)
  have 3: "dir_get (pending (store (shown_sample\<lparr>grants_file := gs\<rparr>))) ''a1.json'' \<noteq> None"
    by (simp add: shown_sample_eq filed_sample_eq dir_get_def)
  have 4: "\<lparr>f_content = Item ?it, f_mtime = seconds 7, f_owner = Some ''swapd''\<rparr> = sample_decided d"
    by (simp add: sample_decided_def)
  have 5: "snd (housekeeping_if_due no_faults 0 (seconds 7) (init_confirmd\<lparr>store := decided_store d, grants_file := gs\<rparr>))
    = init_confirmd\<lparr>store := decided_store d, grants_file := gs, last_housekeeping := Some 0\<rparr>"
    by (simp add: housekeeping_if_due_def init_confirmd_def map_store_def decided_store_quiet)
  have 6: "json_name ''a1'' = ''a1.json''" by (simp add: json_name_def)
  show ?thesis
    using 2 3
    by (simp add: record_answer_def Let_def sample_env_sel 6 4 1 5)
      (simp add: audit_log_def init_confirmd_def)
qed

definition sample_answered :: "string \<Rightarrow> item" where
  "sample_answered d = answered_item (seconds 5) ''owner'' d (Some ''bdrive'') 24 sample_item"

definition sample_grant :: grant where
  "sample_grant = new_grant (seconds 6) (mint_args_of ''a1'' 24 (sample_answered ''approve''))"

definition decided_state :: "string \<Rightarrow> confirmd" where
  "decided_state d = init_confirmd\<lparr>store := decided_store d,
     grants_file := (if d = ''approve'' then [sample_grant] else []),
     trail := [Audit ''answer'' ''owner'' ''a1''], last_housekeeping := Some 0\<rparr>"

lemma shown_facts:
  "aid_xlock no_faults ''a1'' shown_sample = shown_sample"
  "dir_get (pending (store shown_sample)) ''a1.json'' = Some sample_file"
  "csrf_nonce_ok (seconds 5) ''a1'' sample_nonce shown_sample"
  "\<not> is_expired (seconds 5) sample_item" "grants_file shown_sample = []"
  by (simp_all add: aid_xlock_def no_faults_def lock_name_def map_store_def shown_sample_eq
      filed_sample_eq init_confirmd_def dir_get_def csrf_nonce_ok_def nonce_ok nonce_ttl_def
      is_expired_def sample_item_def seconds_def)

lemma sample_args:
  "a_approval_expires (mint_args_of ''a1'' 24 (sample_answered ''approve'')) = At (seconds 600)"
  "a_credential (mint_args_of ''a1'' 24 (sample_answered ''approve'')) = ''stripe''"
  "a_host (mint_args_of ''a1'' 24 (sample_answered ''approve'')) = ''api.stripe.com''"
  "a_method (mint_args_of ''a1'' 24 (sample_answered ''approve'')) = ''POST''"
  by (simp_all add: mint_args_of_def sample_answered_def answered_item_def sample_item_def
      or_default_def py_eval char_of_def bit_iff_odd)

lemma sample_grant_add:
  "grant_add (seconds 6) (seconds 6) True True (mint_args_of ''a1'' 24 (sample_answered ''approve'')) []
    = (0, [sample_grant])"
  by (simp add: grant_add_def sample_args with_lock_def add_fn_def reap_expired_def
      approval_expiry_refusal_def seconds_def sample_grant_def)

lemma sample_mint:
  "approve_step sample_env ''owner'' ''a1'' 24 (sample_answered ''approve'') shown_sample
     = (Inr False, shown_sample\<lparr>grants_file := [sample_grant]\<rparr>)"
proof -
  have w: "grant_window_ok (seconds 5) (sample_answered ''approve'')"
    by (simp add: grant_window_ok_def grant_mint_window_def sample_answered_def answered_item_def
        sample_item_def seconds_def)
  have m: "run_mint sample_env (mint_args_of ''a1'' 24 (sample_answered ''approve'')) shown_sample
      = (Some 0, shown_sample\<lparr>grants_file := [sample_grant]\<rparr>)"
    using sample_grant_add by (simp add: run_mint_def sample_env_def shown_facts)
  have f: "or_default (it_credential (sample_answered ''approve'')) [] \<noteq> []"
    "or_default (it_host (sample_answered ''approve'')) [] \<noteq> []"
    "str_upper (or_default (it_method (sample_answered ''approve'')) []) \<noteq> []"
    by (simp_all add: sample_answered_def answered_item_def sample_item_def or_default_def py_eval)
  show ?thesis
    using w m f by (simp add: approve_step_def sample_env_def)
qed

lemma answered_sample_eq:
  assumes "d = ''deny'' \<or> d = ''approve''"
  shows "answered_sample d = (See_Other ''/'', decided_state d)"
proof -
  have rec: "record_answer sample_env no_faults ''owner'' ''a1'' d False (sample_answered d)
      (shown_sample\<lparr>grants_file := gs\<rparr>) = (See_Other ''/'', init_confirmd\<lparr>store := decided_store d,
        grants_file := gs, trail := [Audit ''answer'' ''owner'' ''a1''], last_housekeeping := Some 0\<rparr>)" for gs
    unfolding sample_answered_def by (rule record_sample)
  have empty: "shown_sample\<lparr>grants_file := []\<rparr> = shown_sample"
    using shown_facts(5) by (metis (no_types) confirmd.surjective confirmd.update_convs(5))
  have post: "answered_sample d = answer_locked sample_env no_faults ''owner'' ''a1'' sample_nonce d 24
      shown_sample"
    using assms by (auto simp: answered_sample_def do_POST_def post_refusal_def sample_post_def
        post_paths_def aid_a1 ttl_24 shown_facts)
  have own: "f_content sample_file = Item sample_item" "f_owner sample_file = Some ''bdrive''"
    by (simp_all add: sample_file_def)
  show ?thesis
    using assms rec [of "[sample_grant]"] rec [of "[]", unfolded empty]
    by (auto simp: post answer_locked_def json_name_def shown_facts own sample_env_sel sample_nonce_nonempty nonce_ok
        check_grant_ttl_def grant_ttl_choices_def sample_answered_def [symmetric] sample_mint
        decided_state_def)
qed

subsection \<open>Properties\<close>



lemma csrf_rings_xlock [simp]: "csrf_rings (aid_xlock flt a c) = csrf_rings c"
  by (simp add: aid_xlock_def audit_log_def map_store_def)

lemma csrf_nonce_ok_cong: "csrf_rings c = csrf_rings d \<Longrightarrow> csrf_nonce_ok n a x c = csrf_nonce_ok n a x d"
  by (simp add: csrf_nonce_ok_def)

lemma post_grants:
  assumes "\<And>l d. grants_file (snd (pe l d)) = grants_file d"
    and "grants_file (snd (do_POST pe origins e flt re login p c)) \<noteq> grants_file c"
  obtains ttl where "post_refusal origins login p c = None" and "p_path p = ''/answer''" 
    and "confirmd_aid_ok (p_id p)" and "parse_grant_ttl (p_ttl p) = Some ttl"
    and "do_POST pe origins e flt re login p c = answer_locked e flt login (p_id p) (p_csrf p) (p_decision p) ttl
      (aid_xlock flt (p_id p) c)"
proof -
  have none: "post_refusal origins login p c = None"
  proof (rule ccontr)
    assume "post_refusal origins login p c \<noteq> None"
    then obtain r where r: "post_refusal origins login p c = Some r" by blast
    then have "grants_file (snd r) = grants_file c"
      by (auto simp: post_refusal_def Let_def split: if_splits)
    then show False using assms(2) r by (simp add: do_POST_def)
  qed
  then have "p_path p \<in> set post_paths"
    by (auto simp: post_refusal_def split: if_splits)
  then show ?thesis
    using that none assms by (auto simp: do_POST_def Let_def post_paths_def split: option.splits if_splits)
qed

lemma minted_by_approval:
  assumes "\<And>l d. grants_file (snd (pe l d)) = grants_file d"
    and "g \<in> set (grants_file (snd (do_POST pe origins e flt re login p c)))"
    and "g \<notin> set (grants_file c)"
  shows "\<exists>f it ttl. p_path p = ''/answer'' \<and> p_decision p = ''approve''
    \<and> (p_origin p = [] \<or> p_origin p \<in> set origins)
    \<and> (p_fetch_site p = [] \<or> p_fetch_site p = ''same-origin'')
    \<and> dir_get (pending (store c)) (json_name (p_id p)) = Some f \<and> f_content f = Item it
    \<and> f_owner f \<in> {Some ''bdrive'', Some ''swapd''}
    \<and> csrf_nonce_ok (at_nonce e) (p_id p) (p_csrf p) c
    \<and> (\<forall>x. it_expires it = At x \<longrightarrow>
          at_expiry e < x \<and> at_window e + seconds 30 \<le> x \<and> at_mint_locked e < x)
    \<and> ttl \<in> {1, 24} \<and> parse_grant_ttl (p_ttl p) = Some ttl
    \<and> g = new_grant (at_mint e) (mint_args_of (p_id p) ttl it)
    \<and> g_credential g \<noteq> [] \<and> g_host g \<noteq> [] \<and> g_method g \<noteq> []"
proof -
  have ne: "grants_file (snd (do_POST pe origins e flt re login p c)) \<noteq> grants_file c"
    using assms(2,3) by auto
  from post_grants [OF assms(1) this] obtain ttl where
    p: "post_refusal origins login p c = None" "p_path p = ''/answer''" 
      "parse_grant_ttl (p_ttl p) = Some ttl"
    and eq: "do_POST pe origins e flt re login p c = answer_locked e flt login (p_id p) (p_csrf p) (p_decision p) ttl
      (aid_xlock flt (p_id p) c)" .
  let ?c = "aid_xlock flt (p_id p) c"
  have "grants_file (snd (answer_locked e flt login (p_id p) (p_csrf p) (p_decision p) ttl ?c)) \<noteq> grants_file ?c"
    using ne eq by simp
  then obtain f it where
    a: "dir_get (pending (store ?c)) (json_name (p_id p)) = Some f" "f_content f = Item it"
      "csrf_nonce_ok (at_nonce e) (p_id p) (p_csrf p) ?c" "p_decision p = ''approve''"
      "\<not> is_expired (at_expiry e) it" "f_owner f \<in> {Some ''bdrive'', Some ''swapd''}"
      "ttl \<in> set grant_ttl_choices" "grant_window_ok (at_window e) it"
      "or_default (it_credential it) [] \<noteq> []" "or_default (it_host it) [] \<noteq> []"
      "or_default (it_method it) [] \<noteq> []"
    and add: "grant_add (at_mint e) (at_mint_locked e) (mint_audit_ok e) (mint_save_ok e)
      (mint_args_of (p_id p) ttl it) (grants_file ?c)
      = (0, grants_file (snd (do_POST pe origins e flt re login p c)))"
    unfolding eq by (rule answer_locked_mints)
  have "g \<notin> set (reap_expired n (grants_file c))" for n using assms(3) by (simp add: set_reap)
  then have g: "g = new_grant (at_mint e) (mint_args_of (p_id p) ttl it)"
    and x: "approval_expiry_refusal (at_mint_locked e) (it_expires it) = None"
    using grant_add_0 [OF add] assms(2) by (auto simp: mint_args_of_def)
  have "(p_origin p = [] \<or> p_origin p \<in> set origins) \<and> (p_fetch_site p = [] \<or> p_fetch_site p = ''same-origin'')"
    using p(1) by (auto simp: post_refusal_def split: if_splits)
  moreover have "\<forall>x. it_expires it = At x \<longrightarrow>
      at_expiry e < x \<and> at_window e + seconds 30 \<le> x \<and> at_mint_locked e < x"
    using a(5,8) x by (auto simp: is_expired_def grant_window_ok_def grant_mint_window_def
        approval_expiry_refusal_def split: if_splits)
  moreover have "g_credential g \<noteq> [] \<and> g_host g \<noteq> [] \<and> g_method g \<noteq> []"
    using a(9-11) by (simp add: g new_grant_def mint_args_of_def str_upper_def)
  ultimately show ?thesis
    using a p(2,3) g csrf_nonce_ok_cong [OF csrf_rings_xlock]
    by (intro exI [of _ f] exI [of _ it] exI [of _ ttl]) (simp add: grant_ttl_choices_def)
qed



subsection \<open>Accepted answers\<close>

lemma sweep_answered_pending [simp]: "pending (sweep_answered flt now s) = pending s"
proof -
  have "pending (fold (sweep_answered_file flt now) xs s) = pending s" for xs
    by (induction xs arbitrary: s) (auto simp: sweep_answered_file_def split: option.split)
  then show ?thesis by (simp add: sweep_answered_def)
qed

lemma housekeeping_keeps [simp]:
  "pending (store (snd (housekeeping_if_due flt m now c))) = pending (store c)"
  "csrf_rings (snd (housekeeping_if_due flt m now c)) = csrf_rings c"
  by (auto simp: housekeeping_if_due_def Let_def map_store_def housekeeping_def prune_consumed_def
      prune_quarantine_def prune_locks_def split: option.splits)

lemma csrf_rings_simps [simp]:
  "csrf_rings (audit_log ev l a c) = csrf_rings c"
  "csrf_rings (map_store g c) = csrf_rings c"
  "csrf_rings (remove_pending fn c) = csrf_rings c"
  "csrf_rings (put_answered fn f c) = csrf_rings c"
  "csrf_rings (move_to_consumed fn f c) = csrf_rings c"
  by (simp_all add: audit_log_def map_store_def remove_pending_def put_answered_def move_to_consumed_def)

text \<open>The success branch of an answer.\<close>

lemma record_answer_303:
  assumes "record_answer e flt l aid d refused it c = (See_Other ''/'', c')"
  shows "\<not> refused" and "dir_get (pending (store c')) (json_name aid) = None"
    and "map_of (csrf_rings c') aid = None" and "grants_file c' = grants_file c"
    and "\<not> is_expired (at_recheck e) it"
    and "trail c' = trail c @ [Audit ''answer'' l aid]"
proof -
  have rm: "removal_is e = Removed" and "\<not> refused" "\<not> is_expired (at_recheck e) it"
    using assms by (auto simp: record_answer_def Let_def split: if_splits removal.splits)
  then show "\<not> refused" "\<not> is_expired (at_recheck e) it" by simp_all
  show "dir_get (pending (store c')) (json_name aid) = None" "map_of (csrf_rings c') aid = None"
    using assms rm
    by (auto simp: record_answer_def Let_def remove_pending_def put_answered_def move_to_consumed_def
        evict_aid_lock_def split: if_splits)
  show "grants_file c' = grants_file c"
    using grants_record_answer [of e flt l aid d refused it c] assms by simp
  show "trail c' = trail c @ [Audit ''answer'' l aid]"
    using assms rm
    by (auto simp: record_answer_def Let_def remove_pending_def put_answered_def move_to_consumed_def
        evict_aid_lock_def audit_log_def map_store_def housekeeping_if_due_def
        split: if_splits option.splits)
qed

lemma reap_on_request_410: "fst (reap_on_request flt now l aid f it c) = Status 410"
  by (simp add: reap_on_request_def Let_def split_beta)

lemma approve_step_Inr:
  assumes "approve_step e l aid ttl it c = (Inr False, c1)"
  shows "\<exists>g \<in> set (grants_file c1). g_approval_id g = aid" and "csrf_rings c1 = csrf_rings c"
    and "trail c1 = trail c"
proof -
  obtain code gs where g: "grant_add (at_mint e) (at_mint_locked e) (mint_audit_ok e) (mint_save_ok e)
      (mint_args_of aid ttl it) (grants_file c) = (code, gs)" by force
  have 0: "code = 0" and c1: "c1 = c\<lparr>grants_file := gs\<rparr>"
    using assms g by (auto simp: approve_step_def run_mint_def Let_def split: if_splits option.splits)
  show "\<exists>g \<in> set (grants_file c1). g_approval_id g = aid"
    using grant_add_0 [OF g [unfolded 0]]
    by (auto simp: c1 mint_args_of_def new_grant_def list_ex_iff)
  show "csrf_rings c1 = csrf_rings c" "trail c1 = trail c" by (simp_all add: c1)
qed

lemma answer_locked_303:
  assumes "answer_locked e flt l aid csrf d ttl c = (See_Other ''/'', c')"
  shows "dir_get (pending (store c')) (json_name aid) = None" (is ?p)
    and "map_of (csrf_rings c') aid = None" (is ?n) and "trail c' = trail c @ [Audit ''answer'' l aid]" (is ?t)
    and "if d = ''approve'' then \<exists>g \<in> set (grants_file c'). g_approval_id g = aid
         else grants_file c' = grants_file c" (is ?g)
proof -
  obtain f it where f: "dir_get (pending (store c)) (json_name aid) = Some f" "f_content f = Item it"
    using assms by (auto simp: answer_locked_def Let_def split: option.splits content.splits if_splits)
  let ?it = "answered_item (at_answer e) l d (f_owner f) ttl it"
  have "?p \<and> ?n \<and> ?t \<and> ?g"
  proof (cases "d = ''approve''")
    case True
    then obtain c1 refused where s: "approve_step e l aid ttl ?it c = (Inr refused, c1)"
      and r: "record_answer e flt l aid d refused ?it c1 = (See_Other ''/'', c')"
      using assms f reap_on_request_410 [of flt "at_expiry e" l aid f it c]
      by (auto simp: answer_locked_def Let_def approve_step_def split: option.splits if_splits prod.splits sum.splits)
    then have "refused = False" using record_answer_303(1) by simp
    with s r True show ?thesis using record_answer_303 [OF r] approve_step_Inr [of e l aid ttl ?it c c1] by auto
  next
    case False
    then have r: "record_answer e flt l aid d False ?it c = (See_Other ''/'', c')"
      using assms f reap_on_request_410 [of flt "at_expiry e" l aid f it c]
      by (auto simp: answer_locked_def Let_def split: if_splits)
    show ?thesis using record_answer_303 [OF r] False by auto
  qed
  then show ?p ?n ?t ?g by simp_all
qed



subsection \<open>The reaping render\<close>

definition accounted :: "string \<Rightarrow> file_info \<Rightarrow> int \<Rightarrow> approvals \<Rightarrow> bool" where
  "accounted fn f now s \<longleftrightarrow>
     dir_get (pending s) fn = Some f \<or>
     dir_get (pending s) fn = None \<and>
     (case f_content f of
        Item it \<Rightarrow> is_expired now it \<and> (confirmd_aid_ok (stem fn) \<longrightarrow> dir_get (consumed s) fn \<noteq> None)
      | Torn \<Rightarrow> corrupt_grace \<le> now - f_mtime f \<and> dir_get (quarantine s) fn = Some f
      | Not_Record \<Rightarrow> False)"

lemma accounted_other:
  "dir_get (pending s') fn = dir_get (pending s) fn \<Longrightarrow>
   dir_get (consumed s) fn \<noteq> None \<longrightarrow> dir_get (consumed s') fn \<noteq> None \<Longrightarrow>
   dir_get (quarantine s') fn = dir_get (quarantine s) fn \<Longrightarrow>
   accounted fn f now s \<Longrightarrow> accounted fn f now s'"
  by (auto simp: accounted_def split: content.splits)

lemma store_quarantine_xlock [simp]: "quarantine (store (aid_xlock flt a c)) = quarantine (store c)"
  by (simp add: aid_xlock_def)

lemma reap_expired_file_other:
  assumes "fn' \<noteq> fn" "is_json fn"
  shows "dir_get (pending (store (reap_expired_file flt now fn f it c))) fn' = dir_get (pending (store c)) fn'"
    and "dir_get (consumed (store (reap_expired_file flt now fn f it c))) fn' = dir_get (consumed (store c)) fn'"
    and "quarantine (store (reap_expired_file flt now fn f it c)) = quarantine (store c)"
proof -
  have "dir_get d fn' = dir_get (consumed (store c)) fn'"
    if "confirmd_stamp w now (stem fn) it ow (consumed (store c)) = (r, d)" for w ow r d
    using confirmd_stamps.only_name [of fn' "stem fn" w now it ow "consumed (store c)"] that assms by simp
  then show "dir_get (consumed (store (reap_expired_file flt now fn f it c))) fn' = dir_get (consumed (store c)) fn'"
    by (auto simp: reap_expired_file_def Let_def set_consumed_def remove_pending_def split: prod.split)
  show "dir_get (pending (store (reap_expired_file flt now fn f it c))) fn' = dir_get (pending (store c)) fn'"
     "quarantine (store (reap_expired_file flt now fn f it c)) = quarantine (store c)"
    using assms by (auto simp: reap_expired_file_def Let_def set_consumed_def remove_pending_def split: prod.split)
qed

lemma reap_expired_file_accounted:
  assumes "is_json fn" and "dir_get (pending (store c)) fn = Some f" and "f_content f = Item it"
    and "is_expired now it"
  shows "accounted fn f now (store (reap_expired_file flt now fn f it c))"
proof (cases "confirmd_aid_ok (stem fn)")
  case False
  then show ?thesis using assms
    by (auto simp: reap_expired_file_def Let_def remove_pending_def accounted_def)
next
  case True
  obtain r d where rd: "confirmd_stamp (\<not> write_fails flt fn) now (stem fn) it (f_owner f)
      (consumed (store c)) = (r, d)" by force
  have "dir_get d fn \<noteq> None" if "r \<noteq> Write_Failed"
  proof -
    have "r \<noteq> Bad_Aid" using confirmd_stamps.bad_aid True rd by (metis fst_conv)
    then have "r \<in> {Stamped, Already_There}" using that by (cases r) auto
    then show ?thesis
      using confirmd_stamps.present [of "\<not> write_fails flt fn" now "stem fn" it "f_owner f"
          "consumed (store c)"] rd assms(1) by simp
  qed
  then show ?thesis
    using True assms rd
    by (auto simp: reap_expired_file_def Let_def remove_pending_def set_consumed_def accounted_def)
qed

lemma load_pending_file_accounted:
  assumes "accounted fn f now (store c)"
  shows "accounted fn f now (store (snd (load_pending_file flt now fn' c)))"
proof -
  consider "is_json fn'" "fn' \<noteq> fn" | "is_json fn'" "fn' = fn" | "\<not> is_json fn'" by blast
  then show ?thesis
  proof cases
    case 1
    have "accounted fn f now (store (reap_expired_file flt now fn' g it c))" for g it
      by (rule accounted_other [OF _ _ _ assms])
        (simp_all add: reap_expired_file_other [OF not_sym [OF 1(2)] 1(1)])
    moreover have "accounted fn f now (store (snd (quarantine_corrupt_pending flt now fn' g c)))" for g
      by (rule accounted_other [OF _ _ _ assms])
        (use 1 in \<open>simp_all add: quarantine_corrupt_pending_def\<close>)
    ultimately show ?thesis
      using assms by (simp add: load_pending_file_def split: option.split content.split)
  next
    case 2
    show ?thesis
    proof (cases "dir_get (pending (store c)) fn")
      case None
      then show ?thesis using assms 2 by (simp add: load_pending_file_def)
    next
      case (Some g)
      then have f: "dir_get (pending (store c)) fn = Some f" using assms by (auto simp: accounted_def)
      show ?thesis
      proof (cases "f_content f")
        case Torn
        then show ?thesis using 2 f assms
          by (simp add: load_pending_file_def quarantine_corrupt_pending_def accounted_def)
      next
        case Not_Record
        then show ?thesis using 2 f assms by (simp add: load_pending_file_def)
      next
        case (Item it)
        then show ?thesis using 2 f assms
          by (simp add: load_pending_file_def reap_expired_file_accounted)
      qed
    qed
  qed (simp add: load_pending_file_def assms)
qed

lemma load_pending_files_accounted:
  "accounted fn f now (store c) \<Longrightarrow>
    accounted fn f now (store (snd (load_pending_files flt now fns c)))"
proof (induction flt now fns c rule: load_pending_files.induct)
  case (2 flt t fn' fns c)
  have "accounted fn f t (store (snd (load_pending_file flt t fn' c)))"
    using "2.prems" by (rule load_pending_file_accounted)
  from "2.IH" [OF refl prod.collapse this] show ?case by (simp add: split_beta Let_def)
qed simp

lemma load_pending_files_live:
  assumes "accounted fn f now (store c)" and "f_content f = Item it" and "\<not> is_expired now it"
    and "is_json fn" and "fn \<in> set fns"
  shows "it \<in> set (fst (load_pending_files flt now fns c))"
  using assms
proof (induction flt now fns c rule: load_pending_files.induct)
  case (2 flt t fn' fns c)
  show ?case
  proof (cases "fn' = fn")
    case True
    then have "fst (load_pending_file flt t fn' c) = Some it"
      using "2.prems" by (auto simp: load_pending_file_def accounted_def)
    then show ?thesis by (simp add: split_beta Let_def)
  next
    case False
    have "accounted fn f t (store (snd (load_pending_file flt t fn' c)))"
      using "2.prems"(1) by (rule load_pending_file_accounted)
    from "2.IH" [OF refl prod.collapse this] "2.prems" False show ?thesis
      by (auto simp: split_beta Let_def split: option.split)
  qed
qed simp

text \<open>
  C18: the reaping render loses no approval. Whatever write, remove, move or lock fails during it,
  each filed item is afterwards still pending, or it had expired and (under a well-formed id) has
  its terminal record in \<open>consumed/\<close>, or it was unreadable for longer than the grace period and lies
  in the quarantine unchanged; and an item that has not expired is on the rendered list.
\<close>

theorem render_loses_nothing:
  assumes "is_json fn" and "dir_get (pending (store c)) fn = Some f"
  shows "accounted fn f now (store (snd (load_pending flt now c)))
    \<and> (\<forall>it. f_content f = Item it \<and> \<not> is_expired now it \<longrightarrow>
          it \<in> set (fst (load_pending flt now c))
          \<and> dir_get (pending (store (snd (load_pending flt now c)))) fn = Some f)"
proof -
  let ?c = "map_store (\<lambda>s. s\<lparr>pending := sweep_stale_tmp flt now (pending s)\<rparr>) c"
  have no_tmp: "\<not> suffix ''.tmp'' fn"
  proof
    assume "suffix ''.tmp'' fn"
    with assms(1) obtain u v where "fn = u @ ''.json''" "fn = v @ ''.tmp''"
      by (auto simp: is_json_def suffix_def)
    then have "last (u @ ''.json'') = last (v @ ''.tmp'')" by metis
    then show False by simp
  qed
  have "dir_get (sweep_stale_tmp flt now d) fn = dir_get d fn" for d
    unfolding sweep_stale_tmp_def
    by (rule fold_invariant [where P = "\<lambda>d'. dir_get d' fn = dir_get d fn" and Q = "\<lambda>_. True"])
      (use no_tmp in \<open>auto split: option.splits\<close>)
  then have 1: "dir_get (pending (store ?c)) fn = Some f" using assms(2) by simp
  then have 2: "accounted fn f now (store ?c)" by (simp add: accounted_def)
  have 3: "accounted fn f now (store (snd (load_pending flt now c)))"
    using load_pending_files_accounted [OF 2] by (simp add: load_pending_def Let_def)
  have "fn \<in> set (sort (dir_names (pending (store ?c))))" using 1 by (simp add: dir_names_iff)
  from load_pending_files_live [OF 2 _ _ assms(1) this] 3 show ?thesis
    by (auto simp: load_pending_def Let_def accounted_def split: content.splits)
qed

theorem render_loses_nothing_witness:
  "accounted ''a1.json'' sample_file (seconds 700) (store (snd (load_pending no_faults (seconds 700) filed_sample)))
   \<and> sample_item \<in> set (fst (load_pending no_faults (seconds 5) filed_sample))"
proof -
  have f: "is_json ''a1.json''" "dir_get (pending (store filed_sample)) ''a1.json'' = Some sample_file"
    by (simp_all add: filed_sample_eq dir_get_def is_json_def suffix_to_prefix)
  have "f_content sample_file = Item sample_item \<and> \<not> is_expired (seconds 5) sample_item"
    by (simp add: sample_file_def shown_facts)
  then show ?thesis
    using render_loses_nothing [OF f, of "seconds 700" no_faults]
      render_loses_nothing [OF f, of "seconds 5" no_faults] by blast
qed

subsection \<open>Re-opening\<close>

lemma refile_effect:
  assumes "refile e login aid old c = (r, c')" and "pending (store c') \<noteq> pending (store c)"
  shows "\<not> is_expired (ro_now e) old" and "r = See_Other (''/approval/'' @ ro_new_aid e)"
    and "pending (store c') = dir_put (json_name (ro_new_aid e))
      \<lparr>f_content = Item (reopened_item (ro_now e) aid (ro_new_aid e) old), f_mtime = ro_now e,
        f_owner = Some ''swapd''\<rparr> (pending (store c))"
    and "consumed (store c') = consumed (store c)" and "answered (store c') = answered (store c)"
    and "grants_file c' = grants_file c" and "map_of (reopen_nonces c') aid = None"
  using assms
  by (auto simp: refile_def Let_def evict_reopen_nonce_def audit_log_def evict_aid_lock_def
      map_store_def index_reopened_def split: if_splits)

lemma pending_reopened_none:
  assumes "pending_reopened_aid e aid c = (None, c1)"
  shows "\<forall>x \<in> set (listing (pending (store c))). reopened_entry (ro_at_scan e) aid x = None"
    and "store c1 = store c" and "grants_file c1 = grants_file c" and "reopen_nonces c1 = reopen_nonces c"
  using assms
  by (auto simp: pending_reopened_aid_def Let_def first_some_None_iff split: option.splits if_splits)

text \<open>
  C19: re-opening a denial. When \<open>POST /reopen\<close> files anything, the history holds a denial of
  that id whose deadline has not passed, the nonce was the live one and is spent, no earlier
  re-filing of it is pending and live, and the new item carries the credential, host, method, path, scope and
  job of the denied request and its deadline, neither extended nor dropped. The history and the grants
  are untouched.
\<close>

theorem reopen_refiles_denial:
  assumes "reopen_locked e login aid csrf c = (r, c')" and "pending (store c') \<noteq> pending (store c)"
  shows "\<exists>f old new. history_file aid c = Some f \<and> f_content f = Item old
    \<and> it_decision old = Some ''deny'' \<and> reopen_nonce_ok (ro_at_nonce e) aid csrf c
    \<and> (\<forall>fn g it. (fn, g) \<in> set (listing (pending (store c))) \<and> is_json fn \<and> f_content g = Item it
         \<and> it_reopened_from it = Some aid \<and> or_default (it_id it) (stem fn) \<noteq> []
           \<longrightarrow> is_expired (ro_at_scan e) it)
    \<and> dir_get (pending (store c')) (json_name (ro_new_aid e))
        = Some \<lparr>f_content = Item new, f_mtime = ro_now e, f_owner = Some ''swapd''\<rparr>
    \<and> (it_credential new, it_host new, it_method new, it_path_prefix new, it_scope new, it_job new)
        = (it_credential old, it_host old, it_method old, it_path_prefix old, it_scope old, it_job old)
    \<and> stamp_instant (it_expires new) = stamp_instant (it_expires old) \<and> \<not> is_expired (ro_now e) new
    \<and> it_decision new = None
    \<and> consumed (store c') = consumed (store c) \<and> answered (store c') = answered (store c)
    \<and> grants_file c' = grants_file c \<and> \<not> reopen_nonce_ok now aid csrf' c'"
proof -
  obtain f old where h: "history_file aid c = Some f" "f_content f = Item old"
    using assms by (auto simp: reopen_locked_def split: if_splits option.splits content.splits)
  obtain x c1 where x: "pending_reopened_aid e aid c = (x, c1)" by force
  have st: "store c1 = store c" using pending_reopened_aid_store [of e aid c] x by simp
  have d: "it_decision old = Some ''deny''" and none: "x = None" 
    and n: "reopen_nonce_ok (ro_at_nonce e) aid csrf c1" and r: "refile e login aid old c1 = (r, c')"
    using assms h x st by (auto simp: reopen_locked_def split: if_splits option.splits)
  note p = pending_reopened_none [OF x [unfolded none]]
  have pc: "pending (store c') \<noteq> pending (store c1)" using assms(2) st by simp
  note e = refile_effect [OF r pc]
  let ?new = "reopened_item (ro_now e) aid (ro_new_aid e) old"
  have ex: "stamp_instant (it_expires ?new) = stamp_instant (it_expires old)"
    by (simp add: reopened_item_def split: option.split)
  have live: "\<forall>fn g it. (fn, g) \<in> set (listing (pending (store c))) \<and> is_json fn \<and> f_content g = Item it
      \<and> it_reopened_from it = Some aid \<and> or_default (it_id it) (stem fn) \<noteq> []
        \<longrightarrow> is_expired (ro_at_scan e) it"
    using p(1) by (fastforce simp: reopened_entry_def split: if_splits)
  have nn: "reopen_nonce_ok (ro_at_nonce e) aid csrf c"
    using n p(4) by (simp add: reopen_nonce_ok_def)
  have old: "\<not> is_expired (ro_now e) ?new" using e(1) ex by (simp add: is_expired_def)
  have spent: "\<not> reopen_nonce_ok now aid csrf' c'" using e(7) by (simp add: reopen_nonce_ok_def)
  have same: "it_credential ?new = it_credential old" "it_host ?new = it_host old"
    "it_method ?new = it_method old" "it_path_prefix ?new = it_path_prefix old"
    "it_scope ?new = it_scope old" "it_job ?new = it_job old" "it_decision ?new = None"
    by (simp_all add: reopened_item_def empty_item_def)
  show ?thesis
    using h d nn live ex old spent same e(3-6) st p(3)
    by (intro exI [of _ f] exI [of _ old] exI [of _ ?new]) simp
qed

definition reopenable :: confirmd where
  "reopenable = snd (mint_reopen_nonce (seconds 10) sample_nonce ''a1'' (decided_state ''deny''))"

lemma reopenable_eq: "reopenable = (decided_state ''deny'')
    \<lparr>reopen_nonces := [(''a1'', \<lparr>n_nonce = sample_nonce, n_ts = seconds 10\<rparr>)]\<rparr>"
  by (simp add: reopenable_def mint_reopen_nonce_def decided_state_def init_confirmd_def
      put_evicting_def csrf_aid_cap_def)

theorem reopen_refiles_denial_witness:
  "\<exists>new. dir_get (pending (store (snd (reopen_locked sample_reopen_env ''owner'' ''a1'' sample_nonce reopenable))))
      ''b2.json'' = Some \<lparr>f_content = Item new, f_mtime = seconds 20, f_owner = Some ''swapd''\<rparr>
    \<and> it_credential new = Some ''stripe'' \<and> stamp_instant (it_expires new) = Some (seconds 600)"
proof -
  let ?old = "answered_item (seconds 5) ''owner'' ''deny'' (Some ''bdrive'') 24 sample_item"
  have old: "it_id ?old = Some ''a1''" "it_decision ?old = Some ''deny''" "it_credential ?old = Some ''stripe''"
     "it_expires ?old = At (seconds 600)"
    by (simp_all add: answered_item_def sample_item_def)
  have h: "history_file ''a1'' reopenable = Some (sample_decided ''deny'')"
    by (simp add: history_file_def reopenable_eq decided_state_def decided_store_def dir_get_def json_name_def)
  have x: "pending_reopened_aid sample_reopen_env ''a1'' reopenable = (None, reopenable)"
    by (simp add: pending_reopened_aid_def reopenable_eq decided_state_def init_confirmd_def decided_store_def
        or_default_def)
  have n: "reopen_nonce_ok (seconds 20) ''a1'' sample_nonce reopenable"
    by (simp add: reopen_nonce_ok_def nonce_ok reopenable_eq nonce_ttl_def seconds_def)
  have s: "ro_now sample_reopen_env = seconds 20" "ro_at_nonce sample_reopen_env = seconds 20"
    "ro_new_aid sample_reopen_env = ''b2''" "ro_write_ok sample_reopen_env"
    by (simp_all add: sample_reopen_env_def)
  have late: "\<not> is_expired (seconds 20) ?old"
    by (simp add: is_expired_def old) (simp add: seconds_def)
  let ?run = "reopen_locked sample_reopen_env ''owner'' ''a1'' sample_nonce reopenable"
  have run: "?run = refile sample_reopen_env ''owner'' ''a1'' ?old reopenable"
    using h x n by (simp add: reopen_locked_def sample_nonce_nonempty nonce_ok sample_decided_def old s)
  have "dir_get (pending (store (snd ?run))) ''b2.json'' \<noteq> None"
    using late by (simp add: run refile_def Let_def s json_name_def)
  moreover have "dir_get (pending (store reopenable)) ''b2.json'' = None"
    by (simp add: reopenable_eq decided_state_def decided_store_def dir_get_def)
  ultimately have "pending (store (snd ?run)) \<noteq> pending (store reopenable)" by metis
  from reopen_refiles_denial [OF prod.collapse [symmetric] this, of 0 "[]"] obtain f old new where
    "history_file ''a1'' reopenable = Some f" "f_content f = Item old"
    "dir_get (pending (store (snd ?run))) (json_name ''b2'')
      = Some \<lparr>f_content = Item new, f_mtime = seconds 20, f_owner = Some ''swapd''\<rparr>"
    "it_credential new = it_credential old" "stamp_instant (it_expires new) = stamp_instant (it_expires old)"
    unfolding s prod.inject by blast
  moreover from this have "old = ?old" using h by (auto simp: sample_decided_def)
  ultimately show ?thesis by (simp add: json_name_def old)
qed

subsection \<open>The grant writer\<close>

text \<open>
  C20: a run of the grant writer's \<open>add\<close> either fails and leaves the file, or keeps every live
  grant, ends with a grant for the approval, and has added at most the one grant asked for, with a
  lifetime between one hour and a week, audited, and only if the approval had not expired under
  the lock. Approval ids stay distinct.
\<close>

theorem grant_add_correct:
  assumes "grant_add now0 now audit_ok save_ok a file = (code, gs)"
  shows "(code \<noteq> 0 \<and> gs = file) \<or>
    (code = 0 \<and> set (reap_expired now file) \<subseteq> set gs
      \<and> (\<exists>g \<in> set gs. g_approval_id g = a_approval_id a)
      \<and> (\<forall>g \<in> set gs - set file. g = new_grant now0 a \<and> audit_ok
           \<and> (\<exists>t. g_expires g = At t \<and> now0 + hours 1 \<le> t \<and> t \<le> now0 + hours 168)
           \<and> (\<forall>e. a_approval_expires a = At e \<longrightarrow> now < e))
      \<and> (distinct (map g_approval_id file) \<longrightarrow> distinct (map g_approval_id gs)))"
proof (cases "code = 0")
  case False
  then show ?thesis using grant_add_nonzero [OF assms] by simp
next
  case True
  let ?r = "reap_expired now file"
  have d: "distinct (map g_approval_id ?r)" if "distinct (map g_approval_id file)"
    using that unfolding reap_expired_def by (rule distinct_map_filter)
  have e: "\<exists>t. g_expires (new_grant now0 a) = At t \<and> now0 + hours 1 \<le> t \<and> t \<le> now0 + hours 168"
    using clamp_ttl_range [of "a_ttl_hours a"]
    by (simp add: new_grant_def hours_def seconds_def)
  have i: "g_approval_id (new_grant now0 a) = a_approval_id a" by (simp add: new_grant_def)
  from grant_add_0 [OF assms [unfolded True]] show ?thesis
  proof
    assume "gs = ?r \<and> list_ex (\<lambda>g. g_approval_id g = a_approval_id a) ?r"
    then show ?thesis using True d by (auto simp: list_ex_iff set_reap)
  next
    assume g: "gs = ?r @ [new_grant now0 a] \<and>
      \<not> list_ex (\<lambda>g. g_approval_id g = a_approval_id a) ?r \<and>
      approval_expiry_refusal now (a_approval_expires a) = None"
    have "audit_ok"
      using assms True g by (auto simp: grant_add_def with_lock_def add_fn_def split: if_splits)
    then have "\<forall>h \<in> set gs - set file. h = new_grant now0 a \<and> audit_ok
           \<and> (\<exists>t. g_expires h = At t \<and> now0 + hours 1 \<le> t \<and> t \<le> now0 + hours 168)
           \<and> (\<forall>x. a_approval_expires a = At x \<longrightarrow> now < x)"
      using g e by (auto simp: set_reap approval_expiry_refusal_def split: if_splits)
    moreover have "distinct (map g_approval_id gs)" if "distinct (map g_approval_id file)"
      using g d [OF that] i by (auto simp: list_ex_iff)
    ultimately show ?thesis using g i True by auto
  qed
qed

theorem grant_add_correct_witness:
  "grant_add (seconds 6) (seconds 6) True True (mint_args_of ''a1'' 24 (sample_answered ''approve'')) []
     = (0, [sample_grant])
   \<and> set (reap_expired (seconds 6) []) \<subseteq> {sample_grant}"
  using sample_grant_add grant_add_correct [OF sample_grant_add] by simp

text \<open>
  C24: revoking by job leaves exactly the live grants of other jobs, or fails and leaves the
  file, which takes a failed save, or a failed audit line when there was something to revoke.
\<close>

theorem grant_revoke_correct:
  "(case grant_revoke now audit_ok save_ok job old of (code, gs) \<Rightarrow>
      if code = 0
      then set gs = {g \<in> set old. g_job g \<noteq> job \<and> (\<exists>t. g_expires g = At t \<and> now < t)}
      else gs = old \<and> code = 1 \<and>
        (\<not> save_ok \<or> \<not> audit_ok \<and> (\<exists>g. g \<in> set old \<and> g_job g = job \<and> (\<exists>t. g_expires g = At t \<and> now < t))))"
proof -
  let ?r = "reap_expired now old" and ?k = "filter (\<lambda>g. g_job g \<noteq> job) (reap_expired now old)"
  have "\<exists>g. g \<in> set ?r \<and> g_job g = job" if "length ?k < length ?r"
    using that by (metis (mono_tags, lifting) filter_True less_irrefl)
  then have "length ?k < length ?r \<Longrightarrow>
      \<exists>g. g \<in> set old \<and> g_job g = job \<and> (\<exists>t. g_expires g = At t \<and> now < t)"
    by (auto simp: set_reap)
  moreover have "set ?k = {g \<in> set old. g_job g \<noteq> job \<and> (\<exists>t. g_expires g = At t \<and> now < t)}"
    by (auto simp: set_reap)
  ultimately show ?thesis
    by (simp add: grant_revoke_def with_lock_def Let_def)
qed

theorem grant_revoke_correct_witness:
  "grant_revoke (seconds 7) True True ''other'' [sample_grant] = (0, [sample_grant])
    \<and> set (snd (grant_revoke (seconds 7) True True ''other'' [sample_grant]))
      = {g \<in> {sample_grant}. g_job g \<noteq> ''other'' \<and> (\<exists>t. g_expires g = At t \<and> seconds 7 < t)}"
proof -
  have "g_job sample_grant = []" "\<exists>t. g_expires sample_grant = At t \<and> seconds 7 < t"
    by (simp_all add: sample_grant_def new_grant_def mint_args_of_def sample_answered_def
        answered_item_def sample_item_def empty_item_def or_default_def hours_def seconds_def clamp_ttl_def)
  then have "grant_revoke (seconds 7) True True ''other'' [sample_grant] = (0, [sample_grant])"
    by (auto simp: grant_revoke_def with_lock_def reap_expired_def)
  then show ?thesis
    using grant_revoke_correct [where now = "seconds 7" and audit_ok = True and save_ok = True
        and job = "''other''" and old = "[sample_grant]"] by simp
qed

subsection \<open>Bounded history\<close>

lemma set_prune_entries:
  assumes "distinct (dir_names d)"
  shows "(t, fn) \<in> set (prune_entries d) \<longleftrightarrow> is_json fn \<and> (\<exists>f. dir_get d fn = Some f \<and> t = f_mtime f)"
proof -
  have "(fn, f) \<in> set (listing d) \<longleftrightarrow> dir_get d fn = Some f" for f
    using assms by (simp add: dir_get_def dir_names_def)
  then show ?thesis by (auto simp: prune_entries_def image_iff Bex_def)
qed

lemma sorted_prune_entries:
  "sorted (prune_entries d)"
  by (simp add: prune_entries_def)

lemma distinct_dir_del: "distinct (dir_names d) \<Longrightarrow> distinct (dir_names (dir_del fn d))"
  by (auto simp: dir_names_def dir_del_def assoc_delete_def distinct_map_filter)

lemma distinct_fold_del:
  "distinct (dir_names d) \<Longrightarrow> distinct (dir_names (fold (\<lambda>(t, fn) d. if bad fn then d else dir_del fn d) xs d))"
  by (induction xs arbitrary: d) (auto simp: distinct_dir_del)

lemma prune_dir_deleted:
  assumes "dir_get d fn = Some f" and "dir_get (prune_dir flt n d) fn = None"
  shows "\<exists>t. (t, fn) \<in> set (take (length (prune_entries d) - n) (prune_entries d))"
  using assms by (auto simp: prune_dir_def Let_def fold_dir_del_get split: if_splits)



end
