(* ===== verification/Swap_Gate.thy ===== *)
theory Swap_Gate
  imports Host_Match Path_Scope Grant_Writer Bounded_Cache
begin

section \<open>The registry and grant gate (proxy/swap_addon.py)\<close>

text \<open>
  \<open>_credential_allows_request\<close> with its per-request cache and the mtime-gated \<open>_grants\<close>, the
  placement check, and the set of names that may swap in cookies. The registry and the rows of
  \<open>grants.json\<close> are the decoded JSON: a value that is not an object is \<open>None\<close>, a missing field is
  \<open>None\<close>.
\<close>

subsection \<open>Registry\<close>

text \<open>An entry declares a placement, and whether it is opted out of response scrubbing.\<close>

datatype placement = No_Placement | Named string | Kinds "(string \<times> string) list" | Odd_Placement

datatype entry_decl = Not_Object | Entry placement bool

record spec =
  sp_hosts :: "string list option"
  sp_methods :: "string list option"
  sp_paths :: "string list option"
  sp_entries :: "(string \<times> entry_decl) list"

type_synonym registry = "(string \<times> spec option) list"

definition reg_spec :: "registry \<Rightarrow> string \<Rightarrow> spec option" where
  "reg_spec reg name = (case map_of reg name of None \<Rightarrow> None | Some s \<Rightarrow> s)"

definition reserved_keys :: "string list" where
  "reserved_keys = [''allowed_hosts'', ''allowed_methods'', ''allowed_paths'', ''grants'']"

definition declared_entries :: "registry \<Rightarrow> string \<Rightarrow> string list" where
  "declared_entries reg name =
     (case reg_spec reg name of
        None \<Rightarrow> []
      | Some s \<Rightarrow> filter (\<lambda>k. k \<notin> set reserved_keys) (map fst (sp_entries s)))"

subsection \<open>Grant rows\<close>

record grant_row =
  gr_credential :: "string option"
  gr_host :: "string option"
  gr_method :: "string option"
  gr_path_prefix :: "string option"
  gr_expires :: stamp
  gr_approval_id :: "string option"

text \<open>A grant as the writer stores it, read back by the proxy.\<close>

definition row_of_grant :: "grant \<Rightarrow> grant_row" where
  "row_of_grant g =
     \<lparr>gr_credential = Some (g_credential g), gr_host = Some (g_host g),
      gr_method = Some (g_method g), gr_path_prefix = Some (g_path_prefix g),
      gr_expires = g_expires g, gr_approval_id = Some (g_approval_id g)\<rparr>"

subsection \<open>The verdict\<close>

datatype reason = Unbound_Host | Method_Not_Allowed | Path_Not_Allowed | Path_Not_Verifiable

datatype verdict = Allowed "grant_row option" | Refused reason

definition grant_min_validity :: int where "grant_min_validity = seconds 5"

definition evasive :: "string \<Rightarrow> bool" where
  "evasive p = (CHR ''%'' \<in> set p \<or> CHR '';'' \<in> set p \<or> CHR 0x5C \<in> set p)"

text \<open>The tests of one row before the path is looked at.\<close>

definition row_applies :: "int \<Rightarrow> string \<Rightarrow> string \<Rightarrow> string \<Rightarrow> grant_row \<Rightarrow> bool" where
  "row_applies now name host method_up g =
     (gr_credential g = Some name \<and>
      (case stamp_instant (gr_expires g) of
         None \<Rightarrow> False
       | Some e \<Rightarrow> \<not> e \<le> now \<and> \<not> e - now < grant_min_validity) \<and>
      gr_host g = Some host \<and>
      str_upper (or_default (gr_method g) []) = method_up)"

text \<open>The loop over the grants: \<open>None\<close> when it falls through.\<close>

fun grant_scan ::
  "int \<Rightarrow> string \<Rightarrow> string \<Rightarrow> string \<Rightarrow> string \<Rightarrow> grant_row option list \<Rightarrow> verdict option"
where
  "grant_scan now name host method_up norm [] = None"
| "grant_scan now name host method_up norm (None # gs) = grant_scan now name host method_up norm gs"
| "grant_scan now name host method_up norm (Some g # gs) =
     (if \<not> row_applies now name host method_up g then grant_scan now name host method_up norm gs
      else if evasive norm then Some (Refused Path_Not_Allowed)
      else if \<not> path_allowed norm [or_default (gr_path_prefix g) ''/'']
      then grant_scan now name host method_up norm gs
      else Some (Allowed (Some g)))"

definition static_verdict :: "spec \<Rightarrow> string \<Rightarrow> string \<Rightarrow> verdict" where
  "static_verdict s method_up norm =
     (if (case sp_methods s of None \<Rightarrow> False
          | Some ms \<Rightarrow> method_up \<notin> str_upper ` set ms) then Refused Method_Not_Allowed
      else case sp_paths s of
        None \<Rightarrow> Allowed None
      | Some ps \<Rightarrow>
          if method_up = ''CONNECT'' then Refused Path_Not_Verifiable
          else if evasive norm then Refused Path_Not_Allowed
          else if \<not> path_allowed norm ps then Refused Path_Not_Allowed
          else Allowed None)"

definition allows_request_uncached ::
  "registry \<Rightarrow> grant_row option list \<Rightarrow> int \<Rightarrow> string \<Rightarrow> string \<Rightarrow> string \<Rightarrow> string \<Rightarrow> verdict"
where
  "allows_request_uncached reg grants now name host method_up norm =
     (case reg_spec reg name of
        None \<Rightarrow> Refused Unbound_Host
      | Some s \<Rightarrow>
          if \<not> host_in_list host (case sp_hosts s of None \<Rightarrow> [] | Some hs \<Rightarrow> hs)
          then Refused Unbound_Host
          else case grant_scan now name host method_up norm grants of
            Some v \<Rightarrow> v
          | None \<Rightarrow> static_verdict s method_up norm)"

subsection \<open>The caches\<close>

type_synonym verdict_key = "string \<times> string \<times> string \<times> string"

record gate =
  g_registry :: registry
  g_registry_gen :: nat
  g_grants_mtime :: "int option option"
  g_grants_cache :: "grant_row option list"
  g_grants_gen :: nat
  g_verdicts :: "((nat \<times> nat) \<times> (verdict_key \<times> verdict) list) option"

definition init_gate :: gate where
  "init_gate = \<lparr>g_registry = [], g_registry_gen = 0, g_grants_mtime = None, g_grants_cache = [],
     g_grants_gen = 0, g_verdicts = None\<rparr>"

text \<open>
  The grants file as one call finds it: its modification time (\<open>None\<close> when it cannot be read),
  and its rows, \<open>None\<close> when the file does not decode.
\<close>

record grants_disk =
  gd_mtime :: "int option"
  gd_rows :: "grant_row option list option"

definition read_grants :: "grants_disk \<Rightarrow> gate \<Rightarrow> grant_row option list \<times> gate" where
  "read_grants disk a =
     (if Some (gd_mtime disk) \<noteq> g_grants_mtime a then
        (let rows = (case gd_rows disk of None \<Rightarrow> [] | Some rs \<Rightarrow> rs)
         in (rows, a\<lparr>g_grants_mtime := Some (gd_mtime disk), g_grants_cache := rows,
                      g_grants_gen := Suc (g_grants_gen a)\<rparr>))
      else (g_grants_cache a, a))"

definition load_registry :: "registry \<Rightarrow> gate \<Rightarrow> gate" where
  "load_registry reg a = a\<lparr>g_registry := reg, g_registry_gen := Suc (g_registry_gen a)\<rparr>"

definition reset_verdicts :: "gate \<Rightarrow> gate" where
  "reset_verdicts a = a\<lparr>g_verdicts := None\<rparr>"

definition allows_request ::
  "grants_disk \<Rightarrow> int \<Rightarrow> string \<Rightarrow> string \<Rightarrow> string option \<Rightarrow> string option \<Rightarrow> gate \<Rightarrow> verdict \<times> gate"
where
  "allows_request disk now name host method path a0 =
     (let (grants, a) = read_grants disk a0;
          gen = (g_grants_gen a, g_registry_gen a);
          d = (case g_verdicts a of Some (gen', d) \<Rightarrow> if gen' = gen then d else [] | None \<Rightarrow> []);
          method_up = str_upper (or_default method []);
          norm = normalize_path (or_default path ''/'');
          key = (name, host, method_up, norm)
      in case map_of d key of
           Some v \<Rightarrow> (v, a\<lparr>g_verdicts := Some (gen, d)\<rparr>)
         | None \<Rightarrow>
             let v = allows_request_uncached (g_registry a) grants now name host method_up norm
             in (v, a\<lparr>g_verdicts := Some (gen, assoc_put key v d)\<rparr>))"

subsection \<open>Placement\<close>

text \<open>
  Where a placeholder was found: a header (lower case, with a suffix on Authorization), the query,
  the path or the body.
\<close>

datatype location = In_Header string | In_Query | In_Path | In_Body

definition placement_allows :: "registry \<Rightarrow> string \<Rightarrow> string option \<Rightarrow> location option \<Rightarrow> bool" where
  "placement_allows reg name entry loc =
     (case loc of None \<Rightarrow> True
      | Some l \<Rightarrow>
     (case reg_spec reg name of None \<Rightarrow> True
      | Some s \<Rightarrow>
     (case map_of (sp_entries s) (case entry of None \<Rightarrow> ''access_token'' | Some e \<Rightarrow> e) of
        None \<Rightarrow> True
      | Some Not_Object \<Rightarrow> True
      | Some (Entry p _) \<Rightarrow>
         (case p of
            No_Placement \<Rightarrow> True
          | Named k \<Rightarrow>
              if k = ''bearer_header'' then l = In_Header ''authorization:bearer''
              else if k = ''url_path_segment'' then l = In_Path else False
          | Odd_Placement \<Rightarrow> False
          | Kinds [(kind, target)] \<Rightarrow>
              if kind = ''custom_header'' then
                (case l of In_Header d \<Rightarrow> before_char CHR '':'' d = str_lower target | _ \<Rightarrow> False)
              else if kind = ''query_param'' then l = In_Query
              else if kind = ''url_path_segment'' then l = In_Path
              else False
          | Kinds _ \<Rightarrow> False))))"

definition cookie_placed :: "string \<times> entry_decl \<Rightarrow> bool" where
  "cookie_placed = (\<lambda>(e, d).
     case d of
       Entry (Kinds ks) _ \<Rightarrow>
         str_lower (case map_of ks ''custom_header'' of None \<Rightarrow> [] | Some t \<Rightarrow> t) = ''cookie''
     | _ \<Rightarrow> False)"

definition cookie_swap_names :: "registry \<Rightarrow> string list" where
  "cookie_swap_names reg =
     map fst (filter (\<lambda>(name, s). case s of None \<Rightarrow> False
        | Some s \<Rightarrow> list_ex cookie_placed (sp_entries s)) reg)"

subsection \<open>Properties of the verdict\<close>

lemma grant_scan_Allowed:
  assumes "grant_scan now name host m norm gs = Some (Allowed x)"
  shows "\<exists>g. x = Some g \<and> Some g \<in> set gs \<and> row_applies now name host m g \<and> \<not> evasive norm
    \<and> path_allowed norm [or_default (gr_path_prefix g) ''/'']"
  using assms by (induction now name host m norm gs rule: grant_scan.induct) (auto split: if_splits)

lemma grant_scan_finds:
  assumes "Some g \<in> set gs" and "row_applies now name host m g" and "\<not> evasive norm"
    and "path_allowed norm [or_default (gr_path_prefix g) ''/'']"
  shows "\<exists>h. grant_scan now name host m norm gs = Some (Allowed (Some h))"
  using assms by (induction now name host m norm gs rule: grant_scan.induct) auto

lemma grant_scan_none:
  "(\<And>g. Some g \<in> set gs \<Longrightarrow> \<not> row_applies now name host m g) \<Longrightarrow> grant_scan now name host m norm gs = None"
  by (induction now name host m norm gs rule: grant_scan.induct) auto

lemma grant_scan_evasive:
  assumes "evasive norm" shows "grant_scan now name host m norm gs \<in> {None, Some (Refused Path_Not_Allowed)}"
  using assms by (induction now name host m norm gs rule: grant_scan.induct) auto

text \<open>
  C9: what the gate lets through. An allowed request names a registered credential and a host of
  its binding, whatever grants there are. When a grant was the reason, that grant is in the file,
  names this credential, host and method, is valid for at least five more seconds, and its prefix
  covers the path, which is not evasive; when none was, the static method and path limits hold.
\<close>

theorem gate_allows_only_in_scope:
  assumes "allows_request_uncached reg grants now name host m norm = Allowed x"
  shows "\<exists>s hosts. reg_spec reg name = Some s \<and> sp_hosts s = Some hosts \<and> host_in_list host hosts \<and>
    (case x of
       Some g \<Rightarrow> Some g \<in> set grants \<and> gr_credential g = Some name \<and> gr_host g = Some host
         \<and> str_upper (or_default (gr_method g) []) = m
         \<and> (\<exists>e. gr_expires g = At e \<and> now < e \<and> now + seconds 5 \<le> e)
         \<and> \<not> evasive norm \<and> path_allowed norm [or_default (gr_path_prefix g) ''/'']
     | None \<Rightarrow> (sp_methods s = None \<or> (\<exists>ms. sp_methods s = Some ms \<and> m \<in> str_upper ` set ms))
         \<and> (sp_paths s = None \<or>
            (\<exists>ps. sp_paths s = Some ps \<and> m \<noteq> ''CONNECT'' \<and> \<not> evasive norm \<and> path_allowed norm ps)))"
proof -
  obtain s where s: "reg_spec reg name = Some s"
    using assms by (auto simp: allows_request_uncached_def split: option.splits)
  obtain hosts where h: "sp_hosts s = Some hosts" "host_in_list host hosts"
    using assms s by (auto simp: allows_request_uncached_def split: option.splits if_splits)
  consider (grant) "grant_scan now name host m norm grants = Some (Allowed x)"
    | (static) "grant_scan now name host m norm grants = None" "static_verdict s m norm = Allowed x"
    using assms s h by (auto simp: allows_request_uncached_def split: option.splits)
  then show ?thesis
  proof cases
    case grant
    from grant_scan_Allowed [OF this] obtain g where g: "x = Some g" "Some g \<in> set grants"
      "row_applies now name host m g" "\<not> evasive norm" "path_allowed norm [or_default (gr_path_prefix g) ''/'']"
      by blast
    have "\<exists>e. gr_expires g = At e \<and> now < e \<and> now + seconds 5 \<le> e"
      using g(3) by (cases "gr_expires g") (auto simp: row_applies_def grant_min_validity_def)
    with s h g show ?thesis by (auto simp: row_applies_def)
  next
    case static
    with s h show ?thesis
      by (auto simp: static_verdict_def split: option.splits if_splits)
  qed
qed

text \<open>
  What the gate does not refuse: on a bound host, a grant for the credential, host, method and
  a prefix of a path that is not evasive lets the request pass until five seconds before it expires,
  wherever it stands among the other grants.
\<close>

lemma live_grant_admits:
  assumes "reg_spec reg name = Some s" and "sp_hosts s = Some hosts" and "host_in_list host hosts"
    and "Some g \<in> set grants" and "row_applies now name host m g"
    and "path_allowed norm [or_default (gr_path_prefix g) ''/'']" and "\<not> evasive norm"
  shows "\<exists>h. allows_request_uncached reg grants now name host m norm = Allowed (Some h)"
  using grant_scan_finds [OF assms(4,5,7,6)] assms(1-3) by (auto simp: allows_request_uncached_def)

subsection \<open>The verdict cache\<close>

text \<open>
  The states the gate goes through: reloads of the registry, resets by the hooks, calls on
  whatever the grants file then holds, and time passing. The first instant is that of the last
  reset, where the hook that is running began, the second the present.
\<close>

inductive gate_run :: "int \<Rightarrow> int \<Rightarrow> gate \<Rightarrow> bool" where
  start: "gate_run t t init_gate"
| wait: "gate_run b t a \<Longrightarrow> t \<le> t' \<Longrightarrow> gate_run b t' a"
| reload: "gate_run b t a \<Longrightarrow> gate_run b t (load_registry reg a)"
| reset: "gate_run b t a \<Longrightarrow> gate_run t t (reset_verdicts a)"
| call: "gate_run b t a \<Longrightarrow> gate_run b t (snd (allows_request disk t name host method path a))"

definition uncached_key :: "gate \<Rightarrow> int \<Rightarrow> verdict_key \<Rightarrow> verdict" where
  "uncached_key a t = (\<lambda>(name, host, m, norm).
     allows_request_uncached (g_registry a) (g_grants_cache a) t name host m norm)"

definition past_verdict :: "int \<Rightarrow> int \<Rightarrow> gate \<Rightarrow> verdict_key \<Rightarrow> verdict \<Rightarrow> bool" where
  "past_verdict b now a k v \<longleftrightarrow> (\<exists>t. b \<le> t \<and> t \<le> now \<and> v = uncached_key a t k)"

lemma past_verdict_mono: "past_verdict b t a k v \<Longrightarrow> t \<le> t' \<Longrightarrow> past_verdict b t' a k v"
  unfolding past_verdict_def using order_trans by blast

lemma past_verdict_verdicts [simp]: "past_verdict b now (a\<lparr>g_verdicts := x\<rparr>) k v = past_verdict b now a k v"
  by (simp add: past_verdict_def uncached_key_def)

definition cache_ok :: "int \<Rightarrow> int \<Rightarrow> gate \<Rightarrow> bool" where
  "cache_ok b now a \<longleftrightarrow> b \<le> now \<and>
     (\<forall>n r d. g_verdicts a = Some ((n, r), d) \<longrightarrow>
        n \<le> g_grants_gen a \<and> r \<le> g_registry_gen a \<and>
        (n = g_grants_gen a \<and> r = g_registry_gen a \<longrightarrow>
           (\<forall>k v. map_of d k = Some v \<longrightarrow> past_verdict b now a k v)))"

lemma read_grants_cache: "fst (read_grants disk a) = g_grants_cache (snd (read_grants disk a))"
  by (auto simp: read_grants_def Let_def)

lemma cache_ok_read: "cache_ok b now a \<Longrightarrow> cache_ok b now (snd (read_grants disk a))"
  by (fastforce simp: cache_ok_def read_grants_def Let_def)

lemma allows_request_cases:
  assumes "allows_request disk now name host method path a0 = (v, a')"
    and "snd (read_grants disk a0) = a"
    and "k = (name, host, str_upper (or_default method []), normalize_path (or_default path ''/''))"
  obtains (hit) d where "g_verdicts a = Some ((g_grants_gen a, g_registry_gen a), d)" and "map_of d k = Some v"
      and "a' = a"
    | (miss) d where "v = uncached_key a now k" and "a' = a\<lparr>g_verdicts := Some ((g_grants_gen a, g_registry_gen a), assoc_put k v d)\<rparr>"
      and "d = [] \<or> g_verdicts a = Some ((g_grants_gen a, g_registry_gen a), d)"
proof -
  let ?gen = "(g_grants_gen a, g_registry_gen a)"
  let ?d = "case g_verdicts a of Some (gen', d) \<Rightarrow> if gen' = ?gen then d else [] | None \<Rightarrow> []"
  obtain gs where r: "read_grants disk a0 = (gs, a)" "gs = g_grants_cache a"
    using assms(2) read_grants_cache [of disk a0] by (metis prod.collapse)
  have d: "?d = [] \<or> g_verdicts a = Some (?gen, ?d)"
    by (auto split: option.splits prod.splits)
  show ?thesis
  proof (cases "map_of ?d k")
    case None
    then have "v = uncached_key a now k \<and> a' = a\<lparr>g_verdicts := Some (?gen, assoc_put k v ?d)\<rparr>"
      using assms(1,3) r by (auto simp: allows_request_def Let_def uncached_key_def)
    then show ?thesis using miss d by blast
  next
    case (Some w)
    then have nonempty: "g_verdicts a = Some (?gen, ?d)" using d by auto
    have "v = w \<and> a' = a\<lparr>g_verdicts := Some (?gen, ?d)\<rparr>"
      using assms(1,3) r Some by (simp add: allows_request_def Let_def)
    then have "v = w" "a' = a" using nonempty by simp_all
    then show ?thesis using hit [OF nonempty] Some by simp
  qed
qed

lemma cache_ok_call:
  assumes "cache_ok b now a0" and "allows_request disk now name host method path a0 = (v, a')"
  shows "cache_ok b now a'"
    and "\<exists>t. b \<le> t \<and> t \<le> now \<and> v = allows_request_uncached (g_registry a0) (fst (read_grants disk a0)) t name host
      (str_upper (or_default method [])) (normalize_path (or_default path ''/''))"
proof -
  let ?k = "(name, host, str_upper (or_default method []), normalize_path (or_default path ''/''))"
  let ?a = "snd (read_grants disk a0)"
  have ok: "cache_ok b now ?a" using assms(1) by (rule cache_ok_read)
  have reg: "g_registry ?a = g_registry a0" by (simp add: read_grants_def Let_def)
  have "cache_ok b now a' \<and> past_verdict b now ?a ?k v"
    using assms(2) refl refl
  proof (cases rule: allows_request_cases)
    case (hit d)
    then show ?thesis using ok unfolding cache_ok_def by blast
  next
    case (miss d)
    have v: "past_verdict b now ?a ?k v" using miss(1) ok by (auto simp: past_verdict_def cache_ok_def)
    have "past_verdict b now ?a k w" if "map_of (assoc_put ?k v d) k = Some w" for k w
    proof (cases "k = ?k")
      case True
      then show ?thesis using that v by simp
    next
      case False
      then have "map_of d k = Some w" using that by simp
      then show ?thesis using miss(3) ok unfolding cache_ok_def by (cases "d = []") (simp, blast)
    qed
    then have "cache_ok b now a'"
      using ok unfolding cache_ok_def miss(2) by (simp del: split_paired_All)
    with v show ?thesis by simp
  qed
  then show "cache_ok b now a'" "\<exists>t. b \<le> t \<and> t \<le> now \<and> v = allows_request_uncached (g_registry a0) (fst (read_grants disk a0)) t name host
      (str_upper (or_default method [])) (normalize_path (or_default path ''/''))"
    by (simp_all add: past_verdict_def uncached_key_def reg read_grants_cache)
qed

lemma gate_run_cache_ok: "gate_run b t a \<Longrightarrow> cache_ok b t a"
proof (induction rule: gate_run.induct)
  case (start t)
  then show ?case by (simp add: cache_ok_def init_gate_def)
next
  case (wait b t a t')
  then show ?case using past_verdict_mono order_trans [of b t t'] unfolding cache_ok_def by blast
next
  case (reload b t a reg)
  have "n \<le> g_grants_gen a \<and> r \<le> g_registry_gen a" if "g_verdicts a = Some ((n, r), d)" for n r d
    using reload.IH that unfolding cache_ok_def by blast
  then show ?case using reload.IH by (fastforce simp: cache_ok_def load_registry_def)
next
  case (reset b t a)
  then show ?case by (simp add: cache_ok_def reset_verdicts_def)
next
  case (call b t a disk name host meth path)
  then show ?case using cache_ok_call(1) prod.collapse by metis
qed

text \<open>
  C16: the verdict cache serves current data. Whatever sequence of reloads, hook resets and earlier
  calls came before, the verdict of a call is the one a full scan of the registry and of the grants
  read by this call gives at an instant since the running hook began; in particular a grant that has
  been revoked from the file the call reads, or had expired when the hook began, is never the reason
  for an allow.
\<close>

theorem cached_verdict_current:
  assumes "gate_run b now a" and "allows_request disk now name host method path a = (v, a')"
  shows "(\<exists>t. b \<le> t \<and> t \<le> now \<and> v = allows_request_uncached (g_registry a) (fst (read_grants disk a)) t name host
      (str_upper (or_default method [])) (normalize_path (or_default path ''/'')))
    \<and> (\<forall>g. v = Allowed (Some g) \<longrightarrow> Some g \<in> set (fst (read_grants disk a)))"
proof -
  let ?gs = "fst (read_grants disk a)"
  obtain t where t: "b \<le> t" "t \<le> now" "v = allows_request_uncached (g_registry a) ?gs t name host
      (str_upper (or_default method [])) (normalize_path (or_default path ''/''))"
    using cache_ok_call(2) [OF gate_run_cache_ok [OF assms(1)] assms(2)] by blast
  have "Some g \<in> set ?gs" if "v = Allowed (Some g)" for g
  proof -
    have "grant_scan t name host (str_upper (or_default method []))
        (normalize_path (or_default path ''/'')) ?gs = Some (Allowed (Some g))"
      using that t(3)
      by (auto simp: allows_request_uncached_def static_verdict_def split: option.splits if_splits)
    from grant_scan_Allowed [OF this] show ?thesis by simp
  qed
  with t show ?thesis by blast
qed

subsection \<open>An example\<close>

definition sample_registry :: registry where
  "sample_registry = [(''gh'', Some \<lparr>sp_hosts = Some [''api.github.com''], sp_methods = Some [''get''],
     sp_paths = None, sp_entries = [(''access_token'', Entry (Named ''bearer_header'') False)]\<rparr>)]"

definition sample_row :: grant_row where
  "sample_row = \<lparr>gr_credential = Some ''gh'', gr_host = Some ''api.github.com'', gr_method = Some ''POST'',
     gr_path_prefix = Some ''/repos'', gr_expires = At (seconds 600), gr_approval_id = Some ''a1''\<rparr>"

lemma sample_host: "host_in_list ''api.github.com'' [''api.github.com'']"
  by (simp add: host_in_list_def entry_matches_def norm_host_def norm_entry_def strip_brackets_def
      ip_address_def py_eval char_of_def bit_iff_odd)

lemma sample_path: "normalize_path ''/repos/x'' = ''/repos/x''" "path_allowed ''/repos/x'' [''/repos'']"
proof -
  show "normalize_path ''/repos/x'' = ''/repos/x''"
    by (rule normalize_path_evalI [where p = "''/repos/x''" and q = "''/repos/x''"]) (simp_all add: path_eval)
  have "normalize_path ''/repos'' = ''/repos''"
    by (rule normalize_path_evalI [where p = "''/repos''" and q = "''/repos''"]) (simp_all add: path_eval)
  then show "path_allowed ''/repos/x'' [''/repos'']" by (simp add: path_allowed_iff rstrip_char_def)
qed

lemma sample_verdict:
  "allows_request_uncached sample_registry [None, Some sample_row] (seconds 5) ''gh'' ''api.github.com''
     ''POST'' ''/repos/x'' = Allowed (Some sample_row)"
  by (simp add: allows_request_uncached_def sample_registry_def reg_spec_def sample_host row_applies_def
      sample_row_def sample_path grant_min_validity_def seconds_def evasive_def or_default_def py_eval char_of_def bit_iff_odd)

theorem gate_allows_only_in_scope_witness:
  "\<exists>s hosts. reg_spec sample_registry ''gh'' = Some s \<and> sp_hosts s = Some hosts
     \<and> host_in_list ''api.github.com'' hosts \<and> path_allowed ''/repos/x'' [''/repos'']"
  using gate_allows_only_in_scope [OF sample_verdict] by (auto simp: sample_row_def or_default_def)

theorem cached_verdict_current_witness:
  "gate_run (seconds 5) (seconds 5) (load_registry sample_registry init_gate)
   \<and> fst (allows_request \<lparr>gd_mtime = Some 1, gd_rows = Some [None, Some sample_row]\<rparr> (seconds 5) ''gh'' ''api.github.com''
        (Some ''POST'') (Some ''/repos/x'') (load_registry sample_registry init_gate)) = Allowed (Some sample_row)
   \<and> Some sample_row \<in> set (fst (read_grants \<lparr>gd_mtime = Some 1, gd_rows = Some [None, Some sample_row]\<rparr>
        (load_registry sample_registry init_gate)))"
proof -
  let ?d = "\<lparr>gd_mtime = Some 1, gd_rows = Some [None, Some sample_row]\<rparr>"
  let ?a = "load_registry sample_registry init_gate"
  let ?call = "allows_request ?d (seconds 5) ''gh'' ''api.github.com'' (Some ''POST'') (Some ''/repos/x'') ?a"
  have run: "gate_run (seconds 5) (seconds 5) ?a" by (intro gate_run.reload gate_run.start)
  have "str_upper ''POST'' = ''POST''" by (simp add: py_eval)
  then have v: "fst ?call = Allowed (Some sample_row)"
    using sample_verdict
    by (simp add: allows_request_def read_grants_def load_registry_def init_gate_def or_default_def sample_path
        Let_def)
  from cached_verdict_current [OF run prod.collapse [symmetric]] v run show ?thesis by blast
qed


subsection \<open>Placement\<close>

text \<open>
  Whatever the entry declares other than nothing at all, the placement check passes only in the one
  place declared: the bearer header, a path segment, the named header, or the query; never in a body,
  and for a declaration it does not recognise nowhere.
\<close>

lemma declared_placement_binds:
  assumes "reg_spec reg name = Some s" and "map_of (sp_entries s) e = Some (Entry p opt_out)" and "p \<noteq> No_Placement"
  shows "placement_allows reg name (Some e) (Some l) \<longleftrightarrow>
      p = Named ''bearer_header'' \<and> l = In_Header ''authorization:bearer''
    \<or> (p = Named ''url_path_segment'' \<or> (\<exists>t. p = Kinds [(''url_path_segment'', t)])) \<and> l = In_Path
    \<or> (\<exists>h d. p = Kinds [(''custom_header'', h)] \<and> l = In_Header d \<and> before_char CHR '':'' d = str_lower h)
    \<or> (\<exists>t. p = Kinds [(''query_param'', t)]) \<and> l = In_Query"
proof (cases p)
  case (Kinds ks)
  consider "ks = []" | k t where "ks = [(k, t)]" | x y zs where "ks = x # y # zs"
    by (metis neq_Nil_conv surj_pair)
  then show ?thesis
  proof cases
    case 2
    then show ?thesis using assms Kinds
      by (cases l) (auto simp: placement_allows_def)
  qed (use assms Kinds in \<open>auto simp: placement_allows_def\<close>)
qed (use assms in \<open>auto simp: placement_allows_def\<close>)

lemma declared_placement_binds_example:
  "placement_allows sample_registry ''gh'' (Some ''access_token'') (Some (In_Header ''authorization:bearer''))
   \<and> \<not> placement_allows sample_registry ''gh'' (Some ''access_token'') (Some In_Body)"
proof -
  let ?s = "the (reg_spec sample_registry ''gh'')"
  have s: "reg_spec sample_registry ''gh'' = Some ?s"
    "map_of (sp_entries ?s) ''access_token'' = Some (Entry (Named ''bearer_header'') False)"
    by (simp_all add: sample_registry_def reg_spec_def)
  show ?thesis by (simp add: declared_placement_binds [OF s])
qed

end
