(* ===== verification/Swap_Approvals.thy ===== *)
theory Swap_Approvals
  imports Approval_Store Path_Scope Bounded_Cache
begin

section \<open>Approval filing by the proxy (proxy/swap_addon.py)\<close>

text \<open>
  What the proxy does when a swap is refused for lack of a grant: deliver a committed denial,
  coalesce on a pending approval, or file a new one, and report an expiry. The three directory
  scans are cached against the directory versions for thirty seconds. A file that decodes to
  something other than an object makes the scans raise an exception nobody on the way catches:
  a result \<open>None\<close> is that exception.
\<close>

subsection \<open>State\<close>

type_synonym tuple_key = "string \<times> string \<times> string \<times> string"
type_synonym pending_key = "string \<times> string \<times> string"

record filer =
  fl_store :: approvals
  fl_denials :: "(tuple_key \<times> (string option \<times> int \<times> (nat \<times> nat))) list"
  fl_expiries :: "(tuple_key \<times> (string option \<times> int \<times> nat)) list"
  fl_pendings :: "(pending_key \<times> (string option \<times> nat \<times> int option \<times> int \<times> nat)) list"
  fl_summons :: "string list"
  fl_pushes :: "string list"
  fl_filed :: "string list"

datatype signal = Pending | Expired | Denied | Approved

definition init_filer :: "approvals \<Rightarrow> filer" where
  "init_filer s = \<lparr>fl_store = s, fl_denials = [], fl_expiries = [], fl_pendings = [],
     fl_summons = [], fl_pushes = [], fl_filed = []\<rparr>"

definition signal_ttl :: int where "signal_ttl = seconds 3600"

definition scan_cache_ttl :: int where "scan_cache_ttl = seconds 30"

definition scan_cache_cap :: nat where "scan_cache_cap = 1024"

definition flood_cap :: nat where "flood_cap = 5"

definition filing_interval :: int where "filing_interval = seconds 60"

subsection \<open>Terminal records\<close>

definition tuple_matches :: "string \<Rightarrow> string \<Rightarrow> string \<Rightarrow> string \<Rightarrow> item \<Rightarrow> bool" where
  "tuple_matches name host method_up norm it =
     (it_credential it = Some name \<and> it_host it = Some host
      \<and> str_upper (or_default (it_method it) []) = method_up \<and> it_path_prefix it = Some norm)"

text \<open>One file of a terminal scan: \<open>Some None\<close> is \<open>continue\<close>.\<close>

definition terminal_hit ::
  "string \<Rightarrow> (item \<Rightarrow> stamp) \<Rightarrow> int \<Rightarrow> tuple_key \<Rightarrow> string \<times> file_info \<Rightarrow> (int \<times> string) option option"
where
  "terminal_hit decision stamp_of now key = (\<lambda>(fn, f).
     if \<not> is_json fn \<or> signal_ttl < now - f_mtime f then Some None
     else case f_content f of
       Torn \<Rightarrow> Some None
     | Not_Record \<Rightarrow> None
     | Item it \<Rightarrow>
         (case key of (name, host, method_up, norm) \<Rightarrow>
          if \<not> tuple_matches name host method_up norm it \<or> it_decision it \<noteq> Some decision then Some None
          else case stamp_instant (stamp_of it) of
            None \<Rightarrow> Some None
          | Some t \<Rightarrow>
              let aid = or_default (it_id it) (stem fn) in
              if signal_ttl < now - t \<or> \<not> proxy_aid_ok aid then Some None
              else Some (Some (t, aid))))"

definition newer :: "(int \<times> string) option \<Rightarrow> (int \<times> string) option \<Rightarrow> (int \<times> string) option" where
  "newer best hit =
     (case hit of
        None \<Rightarrow> best
      | Some (t, aid) \<Rightarrow>
          (case best of None \<Rightarrow> hit | Some (t', _) \<Rightarrow> if t' < t then hit else best))"

fun best_terminal ::
  "string \<Rightarrow> (item \<Rightarrow> stamp) \<Rightarrow> int \<Rightarrow> tuple_key \<Rightarrow> (int \<times> string) option
    \<Rightarrow> (string \<times> file_info) list \<Rightarrow> (int \<times> string) option option"
where
  "best_terminal dec st now key best [] = Some best"
| "best_terminal dec st now key best (x # xs) =
     (case terminal_hit dec st now key x of
        None \<Rightarrow> None
      | Some h \<Rightarrow> best_terminal dec st now key (newer best h) xs)"

text \<open>\<open>_scan_denial_dir\<close>, over \<open>consumed/\<close> and \<open>answered/\<close>, the newer of the two.\<close>

definition scan_denial_dir :: "int \<Rightarrow> tuple_key \<Rightarrow> dir \<Rightarrow> (int \<times> string) option option" where
  "scan_denial_dir now key d = best_terminal ''deny'' it_answered_at now key None (listing d)"

definition scan_denials :: "int \<Rightarrow> tuple_key \<Rightarrow> approvals \<Rightarrow> (int \<times> string) option option" where
  "scan_denials now key s =
     (case scan_denial_dir now key (consumed s) of
        None \<Rightarrow> None
      | Some best \<Rightarrow>
          (case scan_denial_dir now key (answered s) of
             None \<Rightarrow> None
           | Some ans \<Rightarrow> Some (newer best ans)))"

definition cached_until :: "int \<Rightarrow> (int \<times> string) option \<Rightarrow> int" where
  "cached_until now best =
     (case best of
        None \<Rightarrow> now + scan_cache_ttl
      | Some (t, _) \<Rightarrow> min (now + scan_cache_ttl) (t + signal_ttl))"

definition terminal_denial :: "bool \<Rightarrow> int \<Rightarrow> tuple_key \<Rightarrow> filer \<Rightarrow> string option option \<times> filer" where
  "terminal_denial fresh now key a =
     (let seen = (version (consumed (fl_store a)), version (answered (fl_store a)));
          scan = (case scan_denials now key (fl_store a) of
                    None \<Rightarrow> (None, a)
                  | Some best \<Rightarrow>
                      (Some (map_option snd best),
                       a\<lparr>fl_denials := put_clearing scan_cache_cap key
                           (map_option snd best, cached_until now best, seen) (fl_denials a)\<rparr>))
      in if fresh then scan
         else case map_of (fl_denials a) key of
           None \<Rightarrow> scan
         | Some (aid, valid_until, seen') \<Rightarrow>
             if seen' = seen \<and> now < valid_until then (Some aid, a) else scan)"

definition terminal_expiry :: "int \<Rightarrow> tuple_key \<Rightarrow> filer \<Rightarrow> string option option \<times> filer" where
  "terminal_expiry now key a =
     (let seen = version (consumed (fl_store a));
          scan = (case best_terminal ''expired'' it_expired_at now key None
                         (listing (consumed (fl_store a))) of
                    None \<Rightarrow> (None, a)
                  | Some best \<Rightarrow>
                      (Some (map_option snd best),
                       a\<lparr>fl_expiries := put_clearing scan_cache_cap key
                           (map_option snd best, cached_until now best, seen) (fl_expiries a)\<rparr>))
      in case map_of (fl_expiries a) key of
           None \<Rightarrow> scan
         | Some (aid, valid_until, seen') \<Rightarrow>
             if seen' = seen \<and> now < valid_until then (Some aid, a) else scan)"

subsection \<open>The pending scan\<close>

text \<open>
  The surroundings of one refusal: the file operations of the reap by file name, the outcome of
  the filing's writes, and the id it draws.
\<close>

record filing_env =
  stamp_ok :: "string \<Rightarrow> bool"
  unlink_ok :: "string \<Rightarrow> bool"
  file_ok :: bool
  journal_ok :: bool
  new_aid :: string

text \<open>\<open>(tuple_aid, per_cred, newest)\<close>.\<close>

type_synonym pending_view = "string option \<times> nat \<times> int option"

definition reap_pending :: "filing_env \<Rightarrow> int \<Rightarrow> string \<Rightarrow> file_info \<Rightarrow> item \<Rightarrow> approvals \<Rightarrow> approvals" where
  "reap_pending e now fn f it s =
     (let old_aid = or_default (it_id it) (stem fn);
          (r, d) = proxy_stamp (stamp_ok e fn) now old_aid it (f_owner f) (consumed s)
      in if r = Write_Failed then s
         else let s' = s\<lparr>consumed := d\<rparr> in
              if unlink_ok e fn then s'\<lparr>pending := dir_del fn (pending s')\<rparr> else s')"

definition note_pending :: "string \<Rightarrow> string \<Rightarrow> string \<Rightarrow> string \<Rightarrow> item \<Rightarrow> pending_view \<Rightarrow> pending_view" where
  "note_pending name host method_up fn it = (\<lambda>(tuple_aid, per_cred, newest).
     if it_credential it \<noteq> Some name then (tuple_aid, per_cred, newest)
     else
       (if tuple_aid = None \<and> it_host it = Some host
           \<and> str_upper (or_default (it_method it) []) = method_up
        then Some (or_default (it_id it) (stem fn)) else tuple_aid,
        Suc per_cred,
        case stamp_instant (it_created it) of
          None \<Rightarrow> newest
        | Some t \<Rightarrow> (case newest of None \<Rightarrow> Some t | Some n \<Rightarrow> if n < t then Some t else newest)))"

fun scan_pending ::
  "filing_env \<Rightarrow> int \<Rightarrow> string \<Rightarrow> string \<Rightarrow> string \<Rightarrow> (string \<times> file_info) list
    \<Rightarrow> pending_view \<Rightarrow> approvals \<Rightarrow> pending_view option \<times> approvals"
where
  "scan_pending e now name host method_up [] v s = (Some v, s)"
| "scan_pending e now name host method_up ((fn, f) # fs) v s =
     (if \<not> is_json fn then scan_pending e now name host method_up fs v s
      else case f_content f of
        Torn \<Rightarrow> scan_pending e now name host method_up fs v s
      | Not_Record \<Rightarrow> (None, s)
      | Item it \<Rightarrow>
          if is_expired now it
          then scan_pending e now name host method_up fs v (reap_pending e now fn f it s)
          else scan_pending e now name host method_up fs (note_pending name host method_up fn it v) s)"

definition pending_view_of ::
  "filing_env \<Rightarrow> int \<Rightarrow> string \<Rightarrow> string \<Rightarrow> string \<Rightarrow> filer \<Rightarrow> pending_view option \<times> filer"
where
  "pending_view_of e now name host method_up a =
     (let seen = version (pending (fl_store a));
          key = (name, host, method_up);
          scan = (case scan_pending e now name host method_up (listing (pending (fl_store a)))
                         (None, 0, None) (fl_store a) of
                    (None, s) \<Rightarrow> (None, a\<lparr>fl_store := s\<rparr>)
                  | (Some (tuple_aid, per_cred, newest), s) \<Rightarrow>
                      (Some (tuple_aid, per_cred, newest),
                       a\<lparr>fl_store := s,
                         fl_pendings := put_clearing scan_cache_cap key
                           (tuple_aid, per_cred, newest, now + scan_cache_ttl, seen) (fl_pendings a)\<rparr>))
      in case map_of (fl_pendings a) key of
           None \<Rightarrow> scan
         | Some (tuple_aid, per_cred, newest, valid_until, seen') \<Rightarrow>
             if seen' = seen \<and> now < valid_until then (Some (tuple_aid, per_cred, newest), a) else scan)"

subsection \<open>Filing\<close>

definition approval_item :: "int \<Rightarrow> string \<Rightarrow> string \<Rightarrow> string \<Rightarrow> string \<Rightarrow> string \<Rightarrow> string \<Rightarrow> item" where
  "approval_item now aid name host method_up norm summary =
     empty_item\<lparr>it_id := Some aid, it_created := At now, it_expires := At (now + seconds 3600),
        it_kind := Some ''grant-request'', it_credential := Some name, it_host := Some host,
        it_method := Some method_up, it_path_prefix := Some norm, it_scope := Some [],
        it_amount := Some [], it_job := Some [], it_detail := Some [], it_summary := Some summary\<rparr>"

definition write_filing ::
  "filing_env \<Rightarrow> int \<Rightarrow> string \<Rightarrow> string \<Rightarrow> string \<Rightarrow> string \<Rightarrow> string \<Rightarrow> filer
    \<Rightarrow> (string \<times> signal) list \<times> filer"
where
  "write_filing e now name host method_up norm summary a =
     (let aid = new_aid e;
          f = \<lparr>f_content = Item (approval_item now aid name host method_up norm summary),
               f_mtime = now, f_owner = Some ''swapd''\<rparr>
      in if \<not> file_ok e then ([], a)
         else
           let s = fl_store a;
               a1 = a\<lparr>fl_store := s\<lparr>pending := dir_put (json_name aid) f (pending s)\<rparr>\<rparr>
           in if \<not> journal_ok e then ([], a1)
              else ([(aid, Pending)],
                    a1\<lparr>fl_summons := fl_summons a1 @ [aid], fl_filed := fl_filed a1 @ [aid],
                       fl_pushes := fl_pushes a1 @ [aid]\<rparr>))"

definition refusal_summary :: "string option \<Rightarrow> string \<Rightarrow> string \<Rightarrow> string \<Rightarrow> string \<Rightarrow> string" where
  "refusal_summary method host norm name reason =
     or_default method ''?'' @ '' '' @ host @ norm @ '' for '' @ name @ '' (refused: '' @ reason @ '')''"

definition file_approval ::
  "filing_env \<Rightarrow> int \<Rightarrow> string \<Rightarrow> string \<Rightarrow> string option \<Rightarrow> string option \<Rightarrow> string \<Rightarrow> filer
    \<Rightarrow> (string \<times> signal) list option \<times> filer"
where
  "file_approval e now name host method path reason a0 =
     (let method_up = str_upper (or_default method []);
          norm = normalize_path (or_default path ''/'')
      in case pending_view_of e now name host method_up a0 of
           (None, a) \<Rightarrow> (None, a)
         | (Some (tuple_aid, per_cred, newest), a) \<Rightarrow>
             if (case tuple_aid of None \<Rightarrow> False | Some t \<Rightarrow> proxy_aid_ok t) then
               (Some [(the tuple_aid, Pending)], a)
             else if flood_cap \<le> per_cred then (Some [], a)
             else if (case newest of None \<Rightarrow> False | Some n \<Rightarrow> now - n < filing_interval) then (Some [], a)
             else case terminal_denial True now (name, host, method_up, norm) a of
               (None, b) \<Rightarrow> (None, b)
             | (Some (Some aid), b) \<Rightarrow> (Some [(aid, Denied)], b)
             | (Some None, b) \<Rightarrow>
                 let (sigs, c) = write_filing e now name host method_up norm
                       (refusal_summary method host norm name reason) b
                 in (Some sigs, c))"

definition approval_signal_for_refusal ::
  "bool \<Rightarrow> filing_env \<Rightarrow> int \<Rightarrow> string \<Rightarrow> string \<Rightarrow> string option \<Rightarrow> string option \<Rightarrow> string \<Rightarrow> filer
    \<Rightarrow> (string \<times> signal) list option \<times> filer"
where
  "approval_signal_for_refusal enabled e now name host method path reason a =
     (let key = (name, host, str_upper (or_default method []), normalize_path (or_default path ''/''))
      in if \<not> enabled then (Some [], a)
         else case terminal_denial False now key a of
           (None, b) \<Rightarrow> (None, b)
         | (Some (Some aid), b) \<Rightarrow> (Some [(aid, Denied)], b)
         | (Some None, b) \<Rightarrow>
             (case file_approval e now name host method path reason b of
                (None, c) \<Rightarrow> (None, c)
              | (Some sigs, c) \<Rightarrow>
                  if list_ex (\<lambda>(_, st). st = Denied) sigs then (Some sigs, c)
                  else case terminal_expiry now key c of
                    (None, d) \<Rightarrow> (None, d)
                  | (Some None, d) \<Rightarrow> (Some sigs, d)
                  | (Some (Some aid), d) \<Rightarrow> (Some (sigs @ [(aid, Expired)]), d)))"

end
