(* ===== verification/Swap_Filing_Safety.thy ===== *)
theory Swap_Filing_Safety
  imports Swap_Approvals
begin

section \<open>Correctness of the approval filing\<close>

text \<open>
  The scan caches never serve a stale answer: an entry whose recorded directory versions are
  still the current ones was the result of a scan of the current listings. With that, a
  committed denial is delivered instead of a fresh filing, and no credential has more than five
  approvals waiting.
\<close>

subsection \<open>Stores only move forward\<close>

definition dir_le :: "dir \<Rightarrow> dir \<Rightarrow> bool" where
  "dir_le d d' \<longleftrightarrow> d' = d \<or> version d < version d'"

lemma dir_le_refl [simp]: "dir_le d d" by (simp add: dir_le_def)
lemma dir_le_trans: "dir_le a b \<Longrightarrow> dir_le b c \<Longrightarrow> dir_le a c" by (auto simp: dir_le_def)
lemma dir_le_put [simp]: "dir_le d (dir_put fn f d)" by (simp add: dir_le_def dir_put_def)
lemma dir_le_del [simp]: "dir_le d (dir_del fn d)" by (simp add: dir_le_def dir_del_def)
lemma dir_le_version: "dir_le d d' \<Longrightarrow> version d \<le> version d'" by (auto simp: dir_le_def)
lemma dir_le_same: "dir_le d d' \<Longrightarrow> v = version d' \<Longrightarrow> v \<le> version d \<Longrightarrow> d' = d" by (auto simp: dir_le_def)
lemma dir_le_stamp [simp]: "dir_le d (snd (proxy_stamp w now aid it ow d))"
  by (simp add: proxy_stamp_def)

definition store_le :: "approvals \<Rightarrow> approvals \<Rightarrow> bool" where
  "store_le s s' \<longleftrightarrow> dir_le (pending s) (pending s') \<and> dir_le (answered s) (answered s')
     \<and> dir_le (consumed s) (consumed s')"

lemma store_le_refl [simp]: "store_le s s" by (simp add: store_le_def)
lemma store_le_trans: "store_le a b \<Longrightarrow> store_le b c \<Longrightarrow> store_le a c"
  by (auto simp: store_le_def intro: dir_le_trans)

lemma reap_pending_le [simp]: "store_le s (reap_pending e now fn f it s)"
proof -
  obtain r d where rd: "proxy_stamp (stamp_ok e fn) now (or_default (it_id it) (stem fn)) it (f_owner f) (consumed s) = (r, d)"
    by force
  then have "dir_le (consumed s) d"
    using dir_le_stamp [of "consumed s"] by (metis snd_conv)
  then show ?thesis using rd by (auto simp: reap_pending_def Let_def store_le_def)
qed

lemma scan_pending_le: "store_le s (snd (scan_pending e now name host m fs v s))"
proof (induction e now name host m fs v s rule: scan_pending.induct)
  case (2 e now name host m fn f fs v s)
  show ?case
  proof (cases "f_content f")
    case (Item it)
    then show ?thesis
      using 2 store_le_trans [OF reap_pending_le [of s e now fn f it],
          of "snd (scan_pending e now name host m fs v (reap_pending e now fn f it s))"]
      by simp
  qed (use 2 in simp_all)
qed simp

lemma reap_pending_answered [simp]: "answered (reap_pending e now fn f it s) = answered s"
  by (auto simp: reap_pending_def Let_def split: prod.split)

subsection \<open>What a cache entry still says\<close>

definition denial_ok :: "int \<Rightarrow> approvals \<Rightarrow> tuple_key \<Rightarrow> string option \<Rightarrow> nat \<Rightarrow> nat \<Rightarrow> bool" where
  "denial_ok now s key aid vc va \<longleftrightarrow>
     vc \<le> version (consumed s) \<and> va \<le> version (answered s) \<and>
     (vc = version (consumed s) \<and> va = version (answered s) \<longrightarrow>
        (\<exists>t best. t \<le> now \<and> scan_denials t key s = Some best \<and> aid = map_option snd best))"

definition denials_ok :: "int \<Rightarrow> filer \<Rightarrow> bool" where
  "denials_ok now a \<longleftrightarrow>
     (\<forall>key aid u vc va. map_of (fl_denials a) key = Some (aid, u, vc, va) \<longrightarrow>
        denial_ok now (fl_store a) key aid vc va)"

definition live_item :: "int \<Rightarrow> string \<Rightarrow> string \<times> file_info \<Rightarrow> bool" where
  "live_item now name = (\<lambda>(fn, f). is_json fn \<and>
     (case f_content f of Item it \<Rightarrow> \<not> is_expired now it \<and> it_credential it = Some name | _ \<Rightarrow> False))"

definition created_of :: "string \<times> file_info \<Rightarrow> int option" where
  "created_of = (\<lambda>(fn, f). case f_content f of Item it \<Rightarrow> stamp_instant (it_created it) | _ \<Rightarrow> None)"

definition live_count :: "int \<Rightarrow> string \<Rightarrow> dir \<Rightarrow> nat" where
  "live_count now name d = length (filter (live_item now name) (listing d))"

text \<open>What a pending view says of a listing.\<close>

definition view_of :: "int \<Rightarrow> string \<Rightarrow> (string \<times> file_info) list \<Rightarrow> nat \<Rightarrow> int option \<Rightarrow> bool" where
  "view_of t name xs per_cred newest \<longleftrightarrow>
     per_cred = length (filter (live_item t name) xs) \<and>
     (\<forall>x \<in> set xs. live_item t name x \<longrightarrow>
        (case created_of x of None \<Rightarrow> True | Some c \<Rightarrow> (\<exists>n. newest = Some n \<and> c \<le> n)))"

lemma view_of_snoc:
  assumes "view_of t name xs pc nw"
  shows "\<not> live_item t name x \<Longrightarrow> view_of t name (xs @ [x]) pc nw"
    and "live_item t name x \<Longrightarrow> view_of t name (xs @ [x]) (Suc pc)
      (case created_of x of None \<Rightarrow> nw | Some c \<Rightarrow> (case nw of None \<Rightarrow> Some c | Some n \<Rightarrow> if n < c then Some c else nw))"
  using assms by (fastforce simp: view_of_def split: option.splits)+

lemma scan_pending_view:
  assumes "scan_pending e now name host m fs (ta, pc, nw) s = (Some (ta', pc', nw'), s')"
    and "view_of now name xs pc nw"
  shows "view_of now name (xs @ fs) pc' nw'"
  using assms
proof (induction fs arbitrary: ta pc nw s xs)
  case (Cons x fs)
  obtain fn f where x: "x = (fn, f)" by force
  note step = Cons.IH [where xs = "xs @ [x]", simplified]
  show ?case
  proof (cases "live_item now name x")
    case False
    then show ?thesis
      using Cons.prems x step view_of_snoc(1) [OF Cons.prems(2) False]
      by (auto simp: live_item_def note_pending_def split: if_splits content.splits)
  next
    case True
    then obtain it where it: "is_json fn" "f_content f = Item it" "\<not> is_expired now it" "it_credential it = Some name"
      by (auto simp: live_item_def x split: content.splits)
    show ?thesis
      using Cons.prems x it step view_of_snoc(2) [OF Cons.prems(2) True]
      by (auto simp: note_pending_def created_of_def)
  qed
qed simp

lemma get_put_cache:
  "map_of (put_clearing scan_cache_cap k v c) k' = Some w \<Longrightarrow> k' = k \<and> w = v \<or> map_of c k' = Some w"
  using get_put_clearing by fastforce

lemma scan_denials_same:
  "consumed s' = consumed s \<Longrightarrow> answered s' = answered s \<Longrightarrow> scan_denials t k s' = scan_denials t k s"
  unfolding scan_denials_def by (simp only:)

lemma denial_ok_le:
  assumes "denial_ok t s key aid vc va" and "t \<le> t'" and "dir_le (consumed s) (consumed s')"
    and "dir_le (answered s) (answered s')"
  shows "denial_ok t' s' key aid vc va"
  unfolding denial_ok_def
proof (intro conjI impI)
  have le: "vc \<le> version (consumed s)" "va \<le> version (answered s)"
    using assms(1) by (simp_all add: denial_ok_def)
  then show "vc \<le> version (consumed s')" "va \<le> version (answered s')"
    using dir_le_version assms(3,4) order_trans by blast+
  assume eq: "vc = version (consumed s') \<and> va = version (answered s')"
  then have same: "consumed s' = consumed s" "answered s' = answered s"
    using dir_le_same [OF assms(3)] dir_le_same [OF assms(4)] le by auto
  then obtain t0 best where "t0 \<le> t" "scan_denials t0 key s = Some best" "aid = map_option snd best"
    using assms(1) eq by (auto simp: denial_ok_def)
  then show "\<exists>t0 best. t0 \<le> t' \<and> scan_denials t0 key s' = Some best \<and> aid = map_option snd best"
    using scan_denials_same [OF same] assms(2) by (intro exI [of _ t0] exI [of _ best]) simp
qed

definition pending_ok :: "int \<Rightarrow> approvals \<Rightarrow> string \<Rightarrow> nat \<Rightarrow> int option \<Rightarrow> nat \<Rightarrow> bool" where
  "pending_ok now s name pc nw v \<longleftrightarrow>
     v \<le> version (pending s) \<and>
     (v = version (pending s) \<longrightarrow> (\<exists>t \<le> now. view_of t name (listing (pending s)) pc nw))"

definition pendings_ok :: "int \<Rightarrow> filer \<Rightarrow> bool" where
  "pendings_ok now a \<longleftrightarrow>
     (\<forall>name host m ta pc nw u v. map_of (fl_pendings a) (name, host, m) = Some (ta, pc, nw, u, v) \<longrightarrow>
        pending_ok now (fl_store a) name pc nw v)"

definition caches_ok :: "int \<Rightarrow> filer \<Rightarrow> bool" where
  "caches_ok now a \<longleftrightarrow> denials_ok now a \<and> pendings_ok now a"

lemma pending_ok_le:
  assumes "pending_ok t s name pc nw v" and "t \<le> t'" and "dir_le (pending s) (pending s')"
  shows "pending_ok t' s' name pc nw v"
  unfolding pending_ok_def
proof (intro conjI impI)
  have le: "v \<le> version (pending s)" using assms(1) by (simp add: pending_ok_def)
  then show "v \<le> version (pending s')" using dir_le_version assms(3) order_trans by blast
  assume eq: "v = version (pending s')"
  then have same: "pending s' = pending s" using dir_le_same [OF assms(3)] le by auto
  then obtain t0 where "t0 \<le> t" "view_of t0 name (listing (pending s)) pc nw"
    using assms(1) eq by (auto simp: pending_ok_def)
  then show "\<exists>t0 \<le> t'. view_of t0 name (listing (pending s')) pc nw"
    using same assms(2) by (intro exI [of _ t0]) simp
qed

text \<open>The caches survive any change of the store that moves the versions forward.\<close>

lemma caches_ok_world:
  assumes "caches_ok t a" and "t \<le> t'" and "store_le (fl_store a) (fl_store a')"
    and "fl_denials a' = fl_denials a" and "fl_pendings a' = fl_pendings a"
  shows "caches_ok t' a'"
  using assms denial_ok_le pending_ok_le
  unfolding caches_ok_def denials_ok_def pendings_ok_def store_le_def by metis

lemma terminal_denial_store [simp]: "fl_store (snd (terminal_denial fresh now key a)) = fl_store a"
  by (auto simp: terminal_denial_def Let_def split: option.split prod.split)

lemma terminal_expiry_store [simp]:
  "fl_store (snd (terminal_expiry now key a)) = fl_store a"
  "fl_denials (snd (terminal_expiry now key a)) = fl_denials a"
  "fl_pendings (snd (terminal_expiry now key a)) = fl_pendings a"
  "fl_pushes (snd (terminal_expiry now key a)) = fl_pushes a"
  "fl_summons (snd (terminal_expiry now key a)) = fl_summons a"
  "fl_filed (snd (terminal_expiry now key a)) = fl_filed a"
  by (auto simp: terminal_expiry_def Let_def split: option.split prod.split)

lemma terminal_denial_rest [simp]:
  "fl_pendings (snd (terminal_denial fresh now key a)) = fl_pendings a"
  "fl_pushes (snd (terminal_denial fresh now key a)) = fl_pushes a"
  "fl_summons (snd (terminal_denial fresh now key a)) = fl_summons a"
  "fl_filed (snd (terminal_denial fresh now key a)) = fl_filed a"
  by (auto simp: terminal_denial_def Let_def split: option.split prod.split)

lemma caches_ok_denial:
  assumes "caches_ok now a"
  shows "caches_ok now (snd (terminal_denial fresh now key a))"
proof -
  let ?s = "fl_store a"
  have d: "denials_ok now (a\<lparr>fl_denials := put_clearing scan_cache_cap key (map_option snd best, u,
      version (consumed ?s), version (answered ?s)) (fl_denials a)\<rparr>)"
    if b: "scan_denials now key ?s = Some best" for best u
  proof -
    have "denial_ok now ?s key (map_option snd best) (version (consumed ?s)) (version (answered ?s))"
      using b by (auto simp: denial_ok_def)
    then show ?thesis
      using assms get_put_cache [of key _ "fl_denials a"]
      unfolding caches_ok_def denials_ok_def by (simp del: split_paired_All) blast
  qed
  then have "denials_ok now (snd (terminal_denial fresh now key a))"
    using assms by (auto simp: terminal_denial_def Let_def caches_ok_def split: option.split prod.split)
  moreover have "pendings_ok now (snd (terminal_denial fresh now key a))"
    using assms by (simp add: caches_ok_def pendings_ok_def)
  ultimately show ?thesis by (simp add: caches_ok_def)
qed

subsection \<open>Every operation keeps the caches honest\<close>

lemma view_of_nil [simp]: "view_of t name [] 0 None" by (simp add: view_of_def)

lemma pending_view_frame:
  shows "fl_denials (snd (pending_view_of e now name host m a)) = fl_denials a"
    and "fl_pushes (snd (pending_view_of e now name host m a)) = fl_pushes a"
    and "fl_summons (snd (pending_view_of e now name host m a)) = fl_summons a"
    and "fl_filed (snd (pending_view_of e now name host m a)) = fl_filed a"
    and "fl_expiries (snd (pending_view_of e now name host m a)) = fl_expiries a"
  by (auto simp: pending_view_of_def Let_def split: option.split prod.split)

lemma pending_view_le: "store_le (fl_store a) (fl_store (snd (pending_view_of e now name host m a)))"
proof -
  obtain v s where sc: "scan_pending e now name host m (listing (pending (fl_store a))) (None, 0, None) (fl_store a) = (v, s)"
    by force
  then have "store_le (fl_store a) s" using scan_pending_le by (metis snd_conv)
  then show ?thesis
    using sc by (auto simp: pending_view_of_def Let_def split: option.split prod.split)
qed

lemma caches_ok_pending_view:
  assumes "caches_ok now a"
  shows "caches_ok now (snd (pending_view_of e now name host m a))"
proof -
  let ?s = "fl_store a" and ?a' = "snd (pending_view_of e now name host m a)"
  have "denials_ok now ?a'"
    using assms pending_view_le [of a e now name host m] denial_ok_le [where t = now and t' = now]
    unfolding caches_ok_def denials_ok_def store_le_def pending_view_frame(1) by blast
  moreover have "pendings_ok now ?a'"
  proof (cases "fl_pendings ?a' = fl_pendings a")
    case True
    then show ?thesis
      using assms pending_view_le [of a e now name host m] pending_ok_le [where t = now and t' = now]
      unfolding caches_ok_def pendings_ok_def store_le_def by (simp del: split_paired_All) blast
  next
    case False
    then obtain ta pc nw s where
      sc: "scan_pending e now name host m (listing (pending ?s)) (None, 0, None) ?s = (Some (ta, pc, nw), s)"
      and fp: "fl_pendings ?a' = put_clearing scan_cache_cap (name, host, m)
           (ta, pc, nw, now + scan_cache_ttl, version (pending ?s)) (fl_pendings a)"
      and st: "fl_store ?a' = s"
      by (auto simp: pending_view_of_def Let_def split: option.splits prod.splits if_splits)
    have le: "dir_le (pending ?s) (pending s)"
      using scan_pending_le [of ?s e now name host m "listing (pending ?s)" "(None, 0, None)"] sc
      by (simp add: store_le_def)
    have "view_of now name (listing (pending ?s)) pc nw"
      using scan_pending_view [OF sc view_of_nil] by simp
    then have "pending_ok now ?s name pc nw (version (pending ?s))"
      by (auto simp: pending_ok_def)
    then have new: "pending_ok now s name pc nw (version (pending ?s))"
      using pending_ok_le le by blast
    have old: "pending_ok now s name' pc' nw' v"
      if "map_of (fl_pendings a) (name', host', m') = Some (ta', pc', nw', u, v)"
      for name' host' m' ta' pc' nw' u v
      using that assms le pending_ok_le [where t = now and t' = now]
      unfolding caches_ok_def pendings_ok_def by blast
    show ?thesis
      unfolding pendings_ok_def st fp
    proof (intro allI impI)
      fix name' host' m' ta' pc' nw' u v
      assume "map_of (put_clearing scan_cache_cap (name, host, m)
           (ta, pc, nw, now + scan_cache_ttl, version (pending ?s)) (fl_pendings a)) (name', host', m')
           = Some (ta', pc', nw', u, v)"
      from get_put_cache [OF this] show "pending_ok now s name' pc' nw' v"
        using new old by auto
    qed
  qed
  ultimately show ?thesis by (simp add: caches_ok_def)
qed

lemma write_filing_le: "store_le (fl_store a) (fl_store (snd (write_filing e now name host m norm summary a)))"
  by (simp add: write_filing_def Let_def store_le_def)

lemma write_filing_frame:
  "fl_denials (snd (write_filing e now name host m norm summary a)) = fl_denials a"
  "fl_pendings (snd (write_filing e now name host m norm summary a)) = fl_pendings a"
  by (simp_all add: write_filing_def Let_def)

text \<open>Threading a property of the state through a result and the state after it.\<close>

lemma through:
  assumes "P (snd x)" and "\<And>v b. x = (v, b) \<Longrightarrow> P b \<Longrightarrow> P (snd (f v b))"
  shows "P (snd (case x of (v, b) \<Rightarrow> f v b))"
  using assms by (cases x) simp

lemma through_option:
  assumes "P (snd n)" and "\<And>w. v = Some w \<Longrightarrow> P (snd (f w))"
  shows "P (snd (case v of None \<Rightarrow> n | Some w \<Rightarrow> f w))"
  using assms by (cases v) simp_all

lemma through_if: "(c \<Longrightarrow> P (snd x)) \<Longrightarrow> (\<not> c \<Longrightarrow> P (snd y)) \<Longrightarrow> P (snd (if c then x else y))"
  by simp

lemma through_tuple:
  assumes "\<And>v b. x = (v, b) \<Longrightarrow> P (snd (f v b))"
  shows "P (snd (case x of (v, b) \<Rightarrow> f v b))"
  using assms by (cases x) simp

lemmas through_intros = through through_tuple through_option through_if

lemma caches_ok_write_filing:
  assumes "caches_ok now a"
  shows "caches_ok now (snd (write_filing e now name host m norm summary a))"
  by (rule caches_ok_world [OF assms order_refl write_filing_le write_filing_frame])

lemma caches_ok_file_approval:
  assumes "caches_ok now a"
  shows "caches_ok now (snd (file_approval e now name host method0 path reason a))"
  unfolding file_approval_def Let_def
  using assms
  by (intro through_intros [where P = "caches_ok now"] caches_ok_pending_view caches_ok_denial caches_ok_write_filing) simp_all

lemma caches_ok_terminal_expiry:
  assumes "caches_ok now a"
  shows "caches_ok now (snd (terminal_expiry now key a))"
  by (rule caches_ok_world [OF assms order_refl]) simp_all

lemma caches_ok_refusal:
  assumes "caches_ok now a"
  shows "caches_ok now (snd (approval_signal_for_refusal en e now name host method0 path reason a))"
  unfolding approval_signal_for_refusal_def Let_def
  using assms
  by (intro through_intros [where P = "caches_ok now"] caches_ok_denial caches_ok_file_approval caches_ok_terminal_expiry) simp_all

subsection \<open>A committed denial is found\<close>

lemma terminal_hit_antimono:
  assumes "terminal_hit dec st now key x = Some (Some h)" and "t \<le> now"
  shows "terminal_hit dec st t key x = Some (Some h)"
proof -
  obtain fn f where x: "x = (fn, f)" by force
  have m: "is_json fn" "\<not> signal_ttl < now - f_mtime f"
    using assms(1) by (auto simp: terminal_hit_def x split: if_splits)
  then obtain it where it: "f_content f = Item it"
    using assms(1) by (auto simp: terminal_hit_def x split: content.splits)
  obtain i where i: "stamp_instant (st it) = Some i" "\<not> signal_ttl < now - i"
    using assms(1) m it by (auto simp: terminal_hit_def x Let_def split: prod.splits if_splits option.splits)
  have "\<not> signal_ttl < t - f_mtime f" "\<not> signal_ttl < t - i" using m i assms(2) by linarith+
  then show ?thesis using assms(1) m it i by (auto simp: terminal_hit_def x Let_def split: prod.splits if_splits)
qed

lemma newer_None [simp]: "newer best h = None \<longleftrightarrow> best = None \<and> h = None"
  by (auto simp: newer_def split: option.splits prod.splits if_splits)

lemma best_terminal_none:
  "best_terminal dec st now key best xs = Some None \<Longrightarrow>
     best = None \<and> (\<forall>x \<in> set xs. terminal_hit dec st now key x = Some None)"
  by (induction dec st now key best xs rule: best_terminal.induct) (auto split: option.splits)

lemma scan_denials_none:
  assumes "scan_denials now key s = Some None"
  shows "\<forall>x \<in> set (listing (consumed s)) \<union> set (listing (answered s)).
    terminal_hit ''deny'' it_answered_at now key x = Some None"
  using assms best_terminal_none
  unfolding scan_denials_def scan_denial_dir_def by (fastforce split: option.splits)

lemma terminal_denial_finds:
  assumes ok: "caches_ok now a"
    and x: "x \<in> set (listing (consumed (fl_store a))) \<union> set (listing (answered (fl_store a)))"
    and hit: "terminal_hit ''deny'' it_answered_at now key x = Some (Some h)"
  shows "fst (terminal_denial fresh now key a) \<noteq> Some None"
proof
  assume none: "fst (terminal_denial fresh now key a) = Some None"
  let ?s = "fl_store a"
  have "\<exists>t \<le> now. scan_denials t key ?s = Some None"
  proof (cases "scan_denials now key ?s = Some None")
    case False
    then obtain u where
      hitc: "map_of (fl_denials a) key = Some (None, u, version (consumed ?s), version (answered ?s))"
      using none by (auto simp: terminal_denial_def Let_def split: option.splits if_splits prod.splits)
    then show ?thesis
      using ok unfolding caches_ok_def denials_ok_def denial_ok_def by (metis option.map_disc_iff)
  qed blast
  then obtain t where "t \<le> now" "scan_denials t key ?s = Some None" by blast
  then show False
    using scan_denials_none x terminal_hit_antimono [OF hit] by fastforce
qed

text \<open>The life of the filer: waiting, other programs working on the store, and refusals.\<close>

inductive filer_reach :: "int \<Rightarrow> filer \<Rightarrow> bool" where
  start: "filer_reach now (init_filer s)"
| wait: "filer_reach t a \<Longrightarrow> t \<le> t' \<Longrightarrow> filer_reach t' a"
| world: "filer_reach t a \<Longrightarrow> store_le (fl_store a) s \<Longrightarrow> filer_reach t (a\<lparr>fl_store := s\<rparr>)"
| refuse: "filer_reach t a \<Longrightarrow>
    approval_signal_for_refusal en e t name host verb path reason a = (r, a') \<Longrightarrow> filer_reach t a'"

lemma caches_ok_init: "caches_ok now (init_filer s)"
  by (simp add: caches_ok_def denials_ok_def pendings_ok_def init_filer_def)

lemma filer_reach_caches_ok: "filer_reach now a \<Longrightarrow> caches_ok now a"
proof (induction rule: filer_reach.induct)
  case (wait t a t')
  then show ?case using caches_ok_world [OF wait.IH wait.hyps(2)] by simp
next
  case (world t a s)
  then show ?case using caches_ok_world [OF world.IH order_refl] by simp
next
  case (refuse t a en e name host verb path reason r a')
  then show ?case using caches_ok_refusal [OF refuse.IH] by (metis snd_conv)
qed (rule caches_ok_init)

text \<open>
  C13: A committed denial is delivered. Whatever the filer did before and however the store moved
  on under its caches, a refusal for a tuple whose denial stands in \<open>consumed/\<close> or already in
  \<open>answered/\<close>, answered within the last hour, files nothing, pages nobody and changes no file; the
  client is told of a denial, unless the scan raised.
\<close>

theorem denial_is_delivered:
  assumes "filer_reach now a"
    and "x \<in> set (listing (consumed (fl_store a))) \<union> set (listing (answered (fl_store a)))"
    and "terminal_hit ''deny'' it_answered_at now
           (name, host, str_upper (or_default verb []), normalize_path (or_default path ''/'')) x
         = Some (Some h)"
    and "approval_signal_for_refusal True e now name host verb path reason a = (r, a')"
  shows "fl_store a' = fl_store a \<and> fl_pushes a' = fl_pushes a \<and> fl_summons a' = fl_summons a
    \<and> (r = None \<or> (\<exists>aid. r = Some [(aid, Denied)]))"
proof -
  let ?key = "(name, host, str_upper (or_default verb []), normalize_path (or_default path ''/''))"
  obtain v b where td: "terminal_denial False now ?key a = (v, b)" by force
  have "v \<noteq> Some None"
    using terminal_denial_finds [OF filer_reach_caches_ok [OF assms(1)] assms(2,3), of False] td by simp
  moreover have "fl_store b = fl_store a" "fl_pushes b = fl_pushes a" "fl_summons b = fl_summons a"
    using terminal_denial_store [of False now ?key a] terminal_denial_rest [of False now ?key a] td by simp_all
  ultimately show ?thesis
    using assms(4) td by (auto simp: approval_signal_for_refusal_def Let_def split: option.splits)
qed

subsection \<open>When a filing happens\<close>

lemma live_item_antimono: "live_item now name x \<Longrightarrow> t \<le> now \<Longrightarrow> live_item t name x"
  using is_expired_mono by (auto simp: live_item_def split: prod.splits content.splits)

lemma length_filter_le: "(\<And>x. P x \<Longrightarrow> Q x) \<Longrightarrow> length (filter P xs) \<le> length (filter Q xs)"
  by (induction xs) (auto intro: le_SucI)

text \<open>
  The view the filing decision rests on counts at least the live items, and its newest filing is
  no older than any of them.
\<close>

lemma pending_view_counts:
  assumes ok: "caches_ok now a"
    and pv: "pending_view_of e now name host m a = (Some (ta, pc, nw), b)"
  shows "live_count now name (pending (fl_store a)) \<le> pc"
    and "x \<in> set (listing (pending (fl_store a))) \<Longrightarrow> live_item now name x \<Longrightarrow> created_of x = Some c
      \<Longrightarrow> \<exists>n. nw = Some n \<and> c \<le> n"
proof -
  let ?s = "fl_store a"
  have "\<exists>t \<le> now. view_of t name (listing (pending ?s)) pc nw"
  proof (cases "scan_pending e now name host m (listing (pending ?s)) (None, 0, None) ?s
        = (Some (ta, pc, nw), fl_store b)")
    case True
    then show ?thesis using scan_pending_view [OF True view_of_nil] by auto
  next
    case False
    then obtain u where "map_of (fl_pendings a) (name, host, m) = Some (ta, pc, nw, u, version (pending ?s))"
      using pv by (auto simp: pending_view_of_def Let_def split: option.splits prod.splits if_splits)
    then show ?thesis
      using ok unfolding caches_ok_def pendings_ok_def pending_ok_def by blast
  qed
  then obtain t where t: "t \<le> now" "view_of t name (listing (pending ?s)) pc nw" by blast
  show "live_count now name (pending ?s) \<le> pc"
    using t length_filter_le [of "live_item now name" "live_item t name"] live_item_antimono
    by (auto simp: live_count_def view_of_def)
  show "\<exists>n. nw = Some n \<and> c \<le> n"
    if "x \<in> set (listing (pending ?s))" "live_item now name x" "created_of x = Some c"
    using t that live_item_antimono [OF that(2) t(1)] by (auto simp: view_of_def)
qed

lemma file_approval_files:
  assumes ok: "caches_ok now a"
    and run: "file_approval e now name host verb path reason a = (r, a')"
    and filed: "fl_filed a' \<noteq> fl_filed a"
  shows "live_count now name (pending (fl_store a)) < flood_cap"
    and "\<And>x c. x \<in> set (listing (pending (fl_store a))) \<Longrightarrow> live_item now name x \<Longrightarrow>
      created_of x = Some c \<Longrightarrow> filing_interval \<le> now - c"
    and "fl_filed a' = fl_filed a @ [new_aid e] \<and> fl_pushes a' = fl_pushes a @ [new_aid e]
      \<and> fl_summons a' = fl_summons a @ [new_aid e] \<and> r = Some [(new_aid e, Pending)]
      \<and> dir_get (pending (fl_store a')) (json_name (new_aid e)) =
          Some \<lparr>f_content = Item (approval_item now (new_aid e) name host (str_upper (or_default verb []))
                  (normalize_path (or_default path ''/''))
                  (refusal_summary verb host (normalize_path (or_default path ''/'')) name reason)),
                f_mtime = now, f_owner = Some ''swapd''\<rparr>"
proof -
  let ?m = "str_upper (or_default verb [])" and ?p = "normalize_path (or_default path ''/'')"
  obtain v b where pv: "pending_view_of e now name host ?m a = (v, b)" by force
  have bf: "fl_filed b = fl_filed a" "fl_pushes b = fl_pushes a" "fl_summons b = fl_summons a"
    using pending_view_frame [of e now name host ?m a] pv by simp_all
  obtain q d where td: "terminal_denial True now (name, host, ?m, ?p) b = (q, d)" by force
  have df: "fl_filed d = fl_filed a" "fl_pushes d = fl_pushes a" "fl_summons d = fl_summons a"
    using terminal_denial_rest [of True now "(name, host, ?m, ?p)" b] td bf by simp_all
  obtain ta pc nw where v: "v = Some (ta, pc, nw)"
    using run filed bf by (cases v) (auto simp: file_approval_def Let_def pv)
  define w where "w = write_filing e now name host ?m ?p (refusal_summary verb host ?p name reason) d"
  have run': "(if (case ta of None \<Rightarrow> False | Some t \<Rightarrow> proxy_aid_ok t) then (Some [(the ta, Pending)], b)
      else if flood_cap \<le> pc then (Some [], b)
      else if (case nw of None \<Rightarrow> False | Some n \<Rightarrow> now - n < filing_interval) then (Some [], b)
      else case q of None \<Rightarrow> (None, d) | Some (Some aid) \<Rightarrow> (Some [(aid, Denied)], d)
        | Some None \<Rightarrow> (Some (fst w), snd w)) = (r, a')"
    using run unfolding file_approval_def Let_def pv v w_def
    by (simp only: prod.case option.case td case_prod_unfold fst_conv snd_conv)
  have pc: "\<not> flood_cap \<le> pc" and nw: "\<And>n. nw = Some n \<Longrightarrow> \<not> now - n < filing_interval"
    and wf: "q = Some None" "r = Some (fst w)" "a' = snd w"
    using run' filed bf df by (auto split: if_splits option.splits)
  note views = pending_view_counts [OF ok pv [unfolded v]]
  show "live_count now name (pending (fl_store a)) < flood_cap" using views(1) pc by simp
  show "filing_interval \<le> now - c"
    if "x \<in> set (listing (pending (fl_store a)))" "live_item now name x" "created_of x = Some c" for x c
    using views(2) [OF that] nw by force
  show "fl_filed a' = fl_filed a @ [new_aid e] \<and> fl_pushes a' = fl_pushes a @ [new_aid e]
      \<and> fl_summons a' = fl_summons a @ [new_aid e] \<and> r = Some [(new_aid e, Pending)]
      \<and> dir_get (pending (fl_store a')) (json_name (new_aid e)) =
          Some \<lparr>f_content = Item (approval_item now (new_aid e) name host ?m ?p
                  (refusal_summary verb host ?p name reason)), f_mtime = now, f_owner = Some ''swapd''\<rparr>"
    using wf filed df by (auto simp: w_def write_filing_def Let_def split: if_splits)
qed

text \<open>
  C14: When a refusal files an approval, in any state the filer reaches: the feature is on, the
  owner has no committed denial of the last hour for this tuple, fewer than five unexpired
  approvals of the credential wait, none of them was created within the last minute, and
  exactly one approval is filed, journalled and pushed, for the tuple of the request, owned by
  swapd and expiring in an hour.
\<close>

theorem filing_is_bounded:
  assumes "filer_reach now a"
    and "approval_signal_for_refusal en e now name host verb path reason a = (r, a')"
    and "fl_filed a' \<noteq> fl_filed a"
  shows "en
    \<and> (\<forall>x \<in> set (listing (consumed (fl_store a))) \<union> set (listing (answered (fl_store a))). \<forall>h.
         terminal_hit ''deny'' it_answered_at now
           (name, host, str_upper (or_default verb []), normalize_path (or_default path ''/'')) x
         \<noteq> Some (Some h))
    \<and> live_count now name (pending (fl_store a)) < flood_cap
    \<and> (\<forall>x \<in> set (listing (pending (fl_store a))). \<forall>c. live_item now name x \<longrightarrow>
         created_of x = Some c \<longrightarrow> filing_interval \<le> now - c)
    \<and> fl_filed a' = fl_filed a @ [new_aid e] \<and> fl_pushes a' = fl_pushes a @ [new_aid e]
    \<and> fl_summons a' = fl_summons a @ [new_aid e]
    \<and> dir_get (pending (fl_store a')) (json_name (new_aid e)) =
        Some \<lparr>f_content = Item (approval_item now (new_aid e) name host (str_upper (or_default verb []))
                (normalize_path (or_default path ''/''))
                (refusal_summary verb host (normalize_path (or_default path ''/'')) name reason)),
              f_mtime = now, f_owner = Some ''swapd''\<rparr>"
proof -
  let ?key = "(name, host, str_upper (or_default verb []), normalize_path (or_default path ''/''))"
  have ok: "caches_ok now a" by (rule filer_reach_caches_ok [OF assms(1)])
  obtain v b where td: "terminal_denial False now ?key a = (v, b)" by force
  have ba: "fl_store b = fl_store a" "fl_pushes b = fl_pushes a" "fl_summons b = fl_summons a"
      "fl_filed b = fl_filed a"
    using terminal_denial_store [of False now ?key a] terminal_denial_rest [of False now ?key a] td by simp_all
  have okb: "caches_ok now b" using caches_ok_denial [OF ok] td by (metis snd_conv)
  obtain q c where fa: "file_approval e now name host verb path reason b = (q, c)" by force
  obtain p d where te: "terminal_expiry now ?key c = (p, d)" by force
  have dc: "fl_store d = fl_store c" "fl_pushes d = fl_pushes c" "fl_summons d = fl_summons c"
      "fl_filed d = fl_filed c"
    using terminal_expiry_store [of now ?key c] te by simp_all
  have en and v: "v = Some None" and a': "a' = c \<or> a' = d"
    using assms(2,3) ba td fa te
    by (auto simp: approval_signal_for_refusal_def Let_def split: if_splits option.splits prod.splits)
  have eq: "fl_store a' = fl_store c" "fl_pushes a' = fl_pushes c" "fl_summons a' = fl_summons c"
      "fl_filed a' = fl_filed c"
    using a' dc by auto
  have filed: "fl_filed c \<noteq> fl_filed b" using assms(3) eq ba by simp
  note facts = file_approval_files [OF okb fa filed]
  have "terminal_hit ''deny'' it_answered_at now ?key x \<noteq> Some (Some h)"
    if "x \<in> set (listing (consumed (fl_store a))) \<union> set (listing (answered (fl_store a)))" for x h
    using terminal_denial_finds [OF ok that, of ?key h False] td v by auto
  then show ?thesis using \<open>en\<close> facts unfolding eq ba by blast
qed

definition idle_env :: filing_env where
  "idle_env = \<lparr>stamp_ok = \<lambda>_. True, unlink_ok = \<lambda>_. True, file_ok = True, journal_ok = True, new_aid = ''a1''\<rparr>"

definition first_refusal :: "(string \<times> signal) list option \<times> filer" where
  "first_refusal = approval_signal_for_refusal True idle_env 0 ''gh'' ''api.github.com'' (Some ''post'') None
     ''no grant'' (init_filer empty_approvals)"

lemma first_refusal_files: "fl_filed (snd first_refusal) = [''a1'']"
  by code_simp

lemma filing_is_bounded_witness:
  "\<exists>r a. filer_reach 0 a \<and> first_refusal = (r, a) \<and> fl_filed a = [''a1'']
    \<and> dir_get (pending (fl_store a)) ''a1.json'' \<noteq> None"
proof -
  obtain r a where ra: "first_refusal = (r, a)" by force
  have reach: "filer_reach 0 (init_filer empty_approvals)" by (rule filer_reach.start)
  note run = ra [unfolded first_refusal_def]
  have f: "fl_filed a = [''a1'']" using first_refusal_files [unfolded ra] by (simp only: snd_conv)
  have "fl_filed a \<noteq> fl_filed (init_filer empty_approvals)" by (simp add: f init_filer_def)
  note facts = filing_is_bounded [OF reach run this]
  have "dir_get (pending (fl_store a)) (json_name (new_aid idle_env)) \<noteq> None" using facts by simp
  then have "dir_get (pending (fl_store a)) ''a1.json'' \<noteq> None" by (simp add: idle_env_def json_name_def)
  then show ?thesis using ra f filer_reach.refuse [OF reach run] by blast
qed

definition denied_store :: approvals where
  "denied_store = empty_approvals\<lparr>answered := dir_put ''a1.json''
     \<lparr>f_content = Item (empty_item\<lparr>it_id := Some ''a1'', it_credential := Some ''gh'', it_host := Some ''api.github.com'',
        it_method := Some ''POST'', it_path_prefix := Some ''/'', it_decision := Some ''deny'', it_answered_at := At 0\<rparr>),
      f_mtime = 0, f_owner = Some ''swapd''\<rparr> empty_dir\<rparr>"

lemma denied_store_hit:
  "terminal_hit ''deny'' it_answered_at 0 (''gh'', ''api.github.com'', str_upper (or_default (Some ''post'') []),
     normalize_path (or_default None ''/'')) (hd (listing (answered denied_store))) = Some (Some (0, ''a1''))"
  by code_simp

lemma denial_is_delivered_witness:
  "fl_pushes (snd (approval_signal_for_refusal True idle_env 0 ''gh'' ''api.github.com'' (Some ''post'') None
     ''no grant'' (init_filer denied_store))) = []"
proof -
  let ?run = "approval_signal_for_refusal True idle_env 0 ''gh'' ''api.github.com'' (Some ''post'') None
     ''no grant'' (init_filer denied_store)"
  have "hd (listing (answered denied_store)) \<in> set (listing (consumed (fl_store (init_filer denied_store))))
      \<union> set (listing (answered (fl_store (init_filer denied_store))))"
    by (simp add: denied_store_def init_filer_def dir_put_def empty_dir_def)
  note delivered = denial_is_delivered [OF filer_reach.start this denied_store_hit, of idle_env "''no grant''" "fst ?run" "snd ?run"]
  have "fl_pushes (snd ?run) = fl_pushes (init_filer denied_store)"
    by (rule delivered [THEN conjunct2, THEN conjunct1]) (rule prod.collapse [symmetric])
  then show ?thesis by (simp add: init_filer_def)
qed

text \<open>
  C34: The scan of \<open>pending/\<close> cannot survive a file that holds JSON other than an object: the
  attribute access raises an exception no handler on the way catches. As long as the file is
  there, an uncached refusal, of whatever credential, host and path, files nothing and has no
  outcome the caller could report.
\<close>

theorem malformed_pending_stops_filing:
  assumes "(fn, f) \<in> set (listing (pending (fl_store a)))" and "is_json fn" and "f_content f = Not_Record"
    and "map_of (fl_pendings a) (name, host, str_upper (or_default verb [])) = None"
  shows "fst (file_approval e now name host verb path reason a) = None
    \<and> fl_filed (snd (file_approval e now name host verb path reason a)) = fl_filed a"
proof -
  let ?m = "str_upper (or_default verb [])"
  have scan: "fst (scan_pending e now name host ?m fs v s) = None" if "(fn, f) \<in> set fs" for fs v s
    using that assms(2,3)
    by (induction e now name host ?m fs v s rule: scan_pending.induct) (auto split: content.splits)
  obtain r b where pv: "pending_view_of e now name host ?m a = (r, b)" by force
  have "r = None"
    using pv assms(4) scan [OF assms(1), of "(None, 0, None)" "fl_store a"]
    by (auto simp: pending_view_of_def Let_def split: prod.splits option.splits)
  then show ?thesis
    using pending_view_frame(4) [of e now name host ?m a] pv by (simp add: file_approval_def)
qed

lemma malformed_pending_stops_filing_witness:
  "fst (file_approval idle_env 0 ''gh'' ''api.github.com'' None None ''no grant''
     (init_filer (empty_approvals\<lparr>pending := dir_put ''x.json''
        \<lparr>f_content = Not_Record, f_mtime = 0, f_owner = None\<rparr> empty_dir\<rparr>))) = None"
  by (rule conjunct1, rule malformed_pending_stops_filing [of "''x.json''" "\<lparr>f_content = Not_Record, f_mtime = 0, f_owner = None\<rparr>"])
    (simp_all add: init_filer_def dir_put_def empty_dir_def is_json_def suffix_def)

end
