(* ===== verification/Text_Codecs.thy ===== *)
theory Text_Codecs
  imports Path_Scope
begin

section \<open>Encoders and decoders of the swap path\<close>

text \<open>
  The standard-library codecs the proxy applies around a substituted value: percent encoding of a
  path segment and of form fields, Base64 of a Basic credential, and the escaping of a JSON
  string. Text is the list of its UTF-8 bytes, one \<open>char\<close> each, as in \<open>Path_Scope\<close>.
\<close>

subsection \<open>UTF-8\<close>

text \<open>\<open>b.decode("utf-8")\<close> succeeds exactly on the texts the replacing decoder leaves alone.\<close>

definition utf8_ok :: "string \<Rightarrow> bool" where
  "utf8_ok s = (utf8_replace s = s)"

lemma utf8_ok_ascii: "list_all is_ascii s \<Longrightarrow> utf8_ok s"
  by (simp add: utf8_ok_def utf8_replace_ascii)

subsection \<open>Percent encoding\<close>

definition unreserved :: "char \<Rightarrow> bool" where
  "unreserved c = (is_alnum_ascii c \<or> c \<in> {CHR ''_'', CHR ''.'', CHR ''-'', CHR ''~''})"

definition hex_digit :: "nat \<Rightarrow> char" where
  "hex_digit n = (if n < 10 then char_of (48 + n) else char_of (55 + n))"

definition pct_encode :: "char \<Rightarrow> string" where
  "pct_encode c = [CHR ''%'', hex_digit (char_code c div 16), hex_digit (char_code c mod 16)]"

text \<open>\<open>urllib.parse.quote(s, safe="")\<close>, \<open>quote_plus\<close> and \<open>urlencode\<close>.\<close>

definition quote :: "string \<Rightarrow> string" where
  "quote s = concat (map (\<lambda>c. if unreserved c then [c] else pct_encode c) s)"

definition quote_plus :: "string \<Rightarrow> string" where
  "quote_plus s = concat (map (\<lambda>c. if c = CHR '' '' then ''+'' else if unreserved c then [c] else pct_encode c) s)"

definition urlencode :: "(string \<times> string) list \<Rightarrow> string" where
  "urlencode ps = str_join CHR ''&'' (map (\<lambda>(k, v). quote_plus k @ ''='' @ quote_plus v) ps)"

text \<open>\<open>urllib.parse.parse_qsl(qs, keep_blank_values=True)\<close>.\<close>

definition unquote_plus :: "string \<Rightarrow> string" where
  "unquote_plus s = unquote (map (\<lambda>c. if c = CHR ''+'' then CHR '' '' else c) s)"

definition parse_field :: "string \<Rightarrow> string \<times> string" where
  "parse_field f =
     (unquote_plus (before_char CHR ''='' f), unquote_plus (tl (dropWhile (\<lambda>c. c \<noteq> CHR ''='') f)))"

definition parse_qsl :: "string \<Rightarrow> (string \<times> string) list" where
  "parse_qsl qs = map parse_field (filter (\<lambda>f. f \<noteq> []) (str_split CHR ''&'' qs))"

lemma hex_value_hex_digit: "n < 16 \<Longrightarrow> hex_value (hex_digit n) = Some n"
  by (auto simp: hex_value_def hex_digit_def char_code_def)

lemma char_code_less [simp]: "char_code c < 256"
  by (simp add: char_code_def)

lemma pct_triple_encode: "pct_triple CHR ''%'' (hex_digit (char_code c div 16)) (hex_digit (char_code c mod 16)) = Some c"
proof -
  have "char_code c div 16 < 16" using char_code_less [of c] by linarith
  then show ?thesis by (simp add: pct_triple_def hex_value_hex_digit char_code_def)
qed

lemma unreserved_not_pct [simp]: "\<not> unreserved CHR ''%''" "\<not> unreserved CHR ''+''" "\<not> unreserved CHR ''&''"
  "\<not> unreserved CHR ''=''" "\<not> unreserved CHR '' ''"
  by (simp_all add: unreserved_def py_eval)

lemma pct_bytes_skip: "c \<noteq> CHR ''%'' \<Longrightarrow> pct_bytes (c # s) = c # pct_bytes s"
  by (cases s; cases "tl s") (auto simp: pct_triple_def)

lemma pct_bytes_encode: "pct_bytes (pct_encode c @ s) = c # pct_bytes s"
  by (simp add: pct_encode_def pct_triple_encode)

lemma unreserved_neq_pct: "unreserved c \<Longrightarrow> c \<noteq> CHR ''%''"
  by auto

lemma pct_bytes_quote: "pct_bytes (quote s) = s"
proof (induction s)
  case (Cons c s)
  then show ?case
    by (cases "unreserved c") (simp_all add: quote_def pct_bytes_encode pct_bytes_skip unreserved_neq_pct)
qed (simp add: quote_def)

lemma unreserved_ascii: "unreserved c \<Longrightarrow> is_ascii c"
  by (auto simp: unreserved_def is_ascii_def is_alnum_ascii_def is_digit_def is_upper_ascii_def
      is_lower_ascii_def char_code_def)

lemma hex_digit_ascii: "n < 16 \<Longrightarrow> is_ascii (hex_digit n)"
  using hex_ascii hex_value_hex_digit by blast

lemma pct_encode_ascii: "list_all is_ascii (pct_encode c)"
proof -
  have "char_code c div 16 < 16" using char_code_less [of c] by linarith
  then show ?thesis by (simp add: pct_encode_def hex_digit_ascii)
qed

lemma quote_ascii: "list_all is_ascii (quote s)"
  by (induction s) (auto simp: quote_def unreserved_ascii pct_encode_ascii)

lemma unquote_runs_ascii:
  assumes "list_all is_ascii s" shows "unquote_runs s = utf8_replace (pct_bytes s)"
proof (cases s)
  case (Cons c s')
  have whole: "takeWhile is_ascii (c # s') = c # s'" "dropWhile is_ascii (c # s') = []" and c: "is_ascii c"
    using assms by (simp_all add: list_all_iff Cons)
  show ?thesis by (simp only: Cons unquote_runs.simps whole c if_True append_Nil2)
qed simp

lemma pct_bytes_id: "CHR ''%'' \<notin> set s \<Longrightarrow> pct_bytes s = s"
proof (induction s)
  case (Cons c s)
  then have "c \<noteq> CHR ''%''" by auto
  then show ?case using Cons pct_bytes_skip by auto
qed simp

lemma unquote_ascii:
  assumes "list_all is_ascii s" shows "unquote s = utf8_replace (pct_bytes s)"
  using assms unquote_runs_ascii pct_bytes_id utf8_replace_ascii by (simp add: unquote_def)

lemma unquote_quote: "utf8_ok s \<Longrightarrow> unquote (quote s) = s"
  by (simp add: unquote_ascii quote_ascii pct_bytes_quote utf8_ok_def)

text \<open>A form field: the space that \<open>quote_plus\<close> turns into a plus sign comes back as a space.\<close>

definition plus_space :: "char \<Rightarrow> char" where
  "plus_space c = (if c = CHR ''+'' then CHR '' '' else c)"

lemma unquote_plus_alt: "unquote_plus s = unquote (map plus_space s)"
  by (simp add: unquote_plus_def plus_space_def [abs_def])

lemma hex_digit_code: "n < 16 \<Longrightarrow> char_code (hex_digit n) = (if n < 10 then 48 + n else 55 + n)"
  by (simp add: char_code_def hex_digit_def)

lemma hex_digit_not_sep:
  assumes "n < 16" shows "hex_digit n \<notin> {CHR ''='', CHR ''&'', CHR ''+''}"
  using hex_digit_code [OF assms] by (auto simp: char_code_def split: if_splits)

lemma plus_space_hex: "n < 16 \<Longrightarrow> plus_space (hex_digit n) = hex_digit n"
  using hex_digit_not_sep by (simp add: plus_space_def)

lemma plus_space_encode: "map plus_space (pct_encode c) = pct_encode c"
proof -
  have "char_code c div 16 < 16" using char_code_less [of c] by linarith
  then show ?thesis by (simp add: pct_encode_def plus_space_hex) (simp add: plus_space_def)
qed

lemma plus_space_quote_plus:
  "map plus_space (quote_plus s) =
     concat (map (\<lambda>c. if c = CHR '' '' then '' '' else if unreserved c then [c] else pct_encode c) s)"
proof (induction s)
  case (Cons c s)
  have "plus_space c = c" if "unreserved c" using that by (auto simp: plus_space_def)
  then show ?case using Cons by (simp add: quote_plus_def plus_space_encode) (simp add: plus_space_def)
qed (simp add: quote_plus_def)

lemma pct_bytes_quote_plus: "pct_bytes (map plus_space (quote_plus s)) = s"
  unfolding plus_space_quote_plus
proof (induction s)
  case (Cons c s)
  then show ?case
    by (cases "unreserved c") (simp_all add: pct_bytes_encode pct_bytes_skip unreserved_neq_pct)
qed simp

lemma quote_plus_ascii: "list_all is_ascii (map plus_space (quote_plus s))"
  unfolding plus_space_quote_plus
  by (induction s) (simp_all add: unreserved_ascii pct_encode_ascii, simp add: is_ascii_def char_code_def)

lemma unquote_quote_plus: "utf8_ok s \<Longrightarrow> unquote_plus (quote_plus s) = s"
  by (simp add: unquote_plus_alt unquote_ascii quote_plus_ascii pct_bytes_quote_plus utf8_ok_def)

lemma pct_encode_not_sep: "CHR ''='' \<notin> set (pct_encode c)" "CHR ''&'' \<notin> set (pct_encode c)"
proof -
  have "char_code c div 16 < 16" using char_code_less [of c] by linarith
  then show "CHR ''='' \<notin> set (pct_encode c)" "CHR ''&'' \<notin> set (pct_encode c)"
    using hex_digit_not_sep [of "char_code c div 16"] hex_digit_not_sep [of "char_code c mod 16"]
    by (auto simp: pct_encode_def)
qed

lemma quote_plus_not_sep: "CHR ''='' \<notin> set (quote_plus s)" "CHR ''&'' \<notin> set (quote_plus s)"
  by (induction s) (auto simp: quote_plus_def pct_encode_not_sep)

lemma dropWhile_sep: "c \<notin> set a \<Longrightarrow> dropWhile (\<lambda>x. x \<noteq> c) (a @ c # b) = c # b"
  by (induction a) auto

lemma parse_field_encoded:
  "utf8_ok k \<Longrightarrow> utf8_ok v \<Longrightarrow> parse_field (quote_plus k @ ''='' @ quote_plus v) = (k, v)"
  by (simp add: parse_field_def before_char_append quote_plus_not_sep unquote_quote_plus dropWhile_sep)

text \<open>Whatever the fields hold, an encoded form decodes to the same fields.\<close>

lemma parse_qsl_urlencode:
  assumes "\<forall>(k, v) \<in> set ps. utf8_ok k \<and> utf8_ok v"
  shows "parse_qsl (urlencode ps) = ps"
proof (cases "ps = []")
  case True
  then show ?thesis by (simp add: urlencode_def parse_qsl_def)
next
  case False
  let ?f = "\<lambda>(k, v). quote_plus k @ ''='' @ quote_plus v"
  have "str_split CHR ''&'' (urlencode ps) = map ?f ps"
    unfolding urlencode_def using False quote_plus_not_sep
    by (intro str_split_join) (auto simp: split_def)
  moreover have "filter (\<lambda>f. f \<noteq> []) (map ?f ps) = map ?f ps"
    by (auto simp: filter_id_conv)
  moreover have "map parse_field (map ?f ps) = ps"
    unfolding map_map using assms parse_field_encoded by (intro map_idI) fastforce
  ultimately show ?thesis by (simp only: parse_qsl_def)
qed

subsection \<open>Base64\<close>

definition b64_char :: "nat \<Rightarrow> char" where
  "b64_char n =
     (if n < 26 then char_of (65 + n) else if n < 52 then char_of (71 + n)
      else if n < 62 then char_of (n - 4) else if n = 62 then CHR ''+'' else CHR ''/'')"

definition b64_value :: "char \<Rightarrow> nat option" where
  "b64_value c =
     (let n = char_code c in
      if 65 \<le> n \<and> n \<le> 90 then Some (n - 65) else if 97 \<le> n \<and> n \<le> 122 then Some (n - 71)
      else if 48 \<le> n \<and> n \<le> 57 then Some (n + 4) else if n = 43 then Some 62
      else if n = 47 then Some 63 else None)"

text \<open>\<open>base64.b64encode\<close>, and \<open>base64.b64decode(s, validate=True)\<close>.\<close>

fun b64_encode :: "string \<Rightarrow> string" where
  "b64_encode (a # b # c # s) =
     (let n = 65536 * char_code a + 256 * char_code b + char_code c
      in b64_char (n div 262144) # b64_char (n div 4096 mod 64) # b64_char (n div 64 mod 64)
         # b64_char (n mod 64) # b64_encode s)"
| "b64_encode [a, b] =
     (let n = 1024 * char_code a + 4 * char_code b
      in [b64_char (n div 4096), b64_char (n div 64 mod 64), b64_char (n mod 64), CHR ''=''])"
| "b64_encode [a] =
     (let n = 16 * char_code a in [b64_char (n div 64), b64_char (n mod 64), CHR ''='', CHR ''=''])"
| "b64_encode [] = []"

definition sextets :: "char list \<Rightarrow> nat list option" where
  "sextets cs = (if list_all (\<lambda>c. b64_value c \<noteq> None) cs then Some (map (the \<circ> b64_value) cs) else None)"

fun b64_decode :: "string \<Rightarrow> string option" where
  "b64_decode [] = Some []"
| "b64_decode (w # x # y # z # s) =
     (if s = [] \<and> z = CHR ''='' then
        (if y = CHR ''='' then
           (case sextets [w, x] of
              Some [i, j] \<Rightarrow> Some [char_of ((64 * i + j) div 16)]
            | _ \<Rightarrow> None)
         else
           (case sextets [w, x, y] of
              Some [i, j, k] \<Rightarrow>
                (let n = 4096 * i + 64 * j + k in Some [char_of (n div 1024), char_of (n div 4 mod 256)])
            | _ \<Rightarrow> None))
      else
        (case sextets [w, x, y, z] of
           Some [i, j, k, l] \<Rightarrow>
             (let n = 262144 * i + 4096 * j + 64 * k + l
              in map_option (\<lambda>t. char_of (n div 65536) # char_of (n div 256 mod 256) # char_of (n mod 256) # t)
                   (b64_decode s))
         | _ \<Rightarrow> None))"
| "b64_decode _ = None"

lemma b64_code:
  assumes "n < 64"
  shows "char_code (b64_char n) = (if n < 26 then 65 + n else if n < 52 then 71 + n
     else if n < 62 then n - 4 else if n = 62 then 43 else 47)"
  using assms by (simp add: b64_char_def char_code_def)

lemma b64_value_char [simp]: "n < 64 \<Longrightarrow> b64_value (b64_char n) = Some n"
  by (auto simp: b64_value_def b64_code Let_def)

lemma b64_char_not_pad [simp]: "n < 64 \<Longrightarrow> b64_char n \<noteq> CHR ''=''"
proof
  assume "n < 64" and "b64_char n = CHR ''=''"
  then have "char_code CHR ''='' = (if n < 26 then 65 + n else if n < 52 then 71 + n
     else if n < 62 then n - 4 else if n = 62 then 43 else 47)"
    using b64_code by metis
  then show False using \<open>n < 64\<close> by (auto simp: char_code_def split: if_splits)
qed

lemma char_of_code [simp]: "char_of (char_code c) = c"
  by (simp add: char_code_def)

lemma div_digit: "r < m \<Longrightarrow> (m * a + r) div m = (a :: nat)"
  by simp

lemma sextet_step: "64 * (n div (k * 64)) + n div k mod 64 = n div (k :: nat)"
  by (simp add: div_mult2_eq)

lemma two_sextets: "64 * (n div 64) + n mod 64 = (n :: nat)"
  by simp

lemma three_sextets: "4096 * (n div 4096) + 64 * (n div 64 mod 64) + n mod 64 = (n :: nat)"
proof -
  have "64 * (n div 4096) + n div 64 mod 64 = n div 64" using sextet_step [of n 64] by simp
  then show ?thesis using two_sextets [of n] by linarith
qed

lemma four_sextets:
  "262144 * (n div 262144) + 4096 * (n div 4096 mod 64) + 64 * (n div 64 mod 64) + n mod 64 = (n :: nat)"
proof -
  have "64 * (n div 262144) + n div 4096 mod 64 = n div 4096" using sextet_step [of n 4096] by simp
  then show ?thesis using three_sextets [of n] by linarith
qed

lemma b64_decode_quad:
  fixes n :: nat
  assumes "n < 16777216"
  shows "b64_decode (b64_char (n div 262144) # b64_char (n div 4096 mod 64) # b64_char (n div 64 mod 64)
      # b64_char (n mod 64) # s)
    = map_option (\<lambda>t. char_of (n div 65536) # char_of (n div 256 mod 256) # char_of (n mod 256) # t) (b64_decode s)"
proof -
  have lt: "n div 262144 < 64" using assms by linarith
  have sx: "sextets [b64_char (n div 262144), b64_char (n div 4096 mod 64), b64_char (n div 64 mod 64),
      b64_char (n mod 64)] = Some [n div 262144, n div 4096 mod 64, n div 64 mod 64, n mod 64]"
    using lt by (simp add: sextets_def)
  have "b64_char (n mod 64) \<noteq> CHR ''=''" by simp
  then show ?thesis unfolding b64_decode.simps sx by (simp add: four_sextets Let_def del: char_of_mod_256)
qed

lemma b64_decode_encode: "b64_decode (b64_encode s) = Some s"
proof (induction s rule: b64_encode.induct)
  case (1 a b c s)
  let ?n = "65536 * char_code a + 256 * char_code b + char_code c"
  have lt: "?n div 262144 < 64" using char_code_less [of a] char_code_less [of b] char_code_less [of c] by linarith
  have "?n = 65536 * char_code a + (256 * char_code b + char_code c)"
    and n: "?n = 256 * (256 * char_code a + char_code b) + char_code c" by simp_all
  then have "?n div 65536 = char_code a"
    using div_digit [of "256 * char_code b + char_code c" 65536] char_code_less [of b] char_code_less [of c] by linarith
  moreover have "?n div 256 = 256 * char_code a + char_code b" "?n mod 256 = char_code c"
    unfolding n using div_digit [OF char_code_less [of c]] char_code_less [of c] by (simp_all only: mod_mult_self4 mod_less)
  moreover have "?n < 16777216" using lt by linarith
  moreover have "(256 * char_code a + char_code b) mod 256 = char_code b" by simp
  ultimately show ?case
    using 1 by (simp only: b64_encode.simps Let_def b64_decode_quad option.map char_of_code)
next
  case (2 a b)
  let ?n = "1024 * char_code a + 4 * char_code b"
  have lt: "?n div 4096 < 64" using char_code_less [of a] char_code_less [of b] by linarith
  have "?n div 1024 = char_code a" using char_code_less [of b] by (intro div_digit) simp
  moreover have "?n div 4 = 256 * char_code a + char_code b" by simp
  moreover have "(256 * char_code a + char_code b) mod 256 = char_code b" by simp
  ultimately show ?case using lt by (simp add: Let_def sextets_def three_sextets del: char_of_mod_256)
next
  case (3 a)
  let ?n = "16 * char_code a"
  have lt: "?n div 64 < 64" using char_code_less [of a] by linarith
  have "64 * (char_code a div 4) + 16 * char_code a mod 64 = 16 * char_code a"
    using two_sextets [of ?n] by simp
  then show ?case using lt by (simp add: Let_def sextets_def)
qed simp


subsection \<open>JSON strings\<close>

text \<open>
  \<open>json.dumps(v)[1:-1]\<close>: everything outside printable ASCII is written as a UTF-16 escape of its
  code point.
\<close>

definition lead_bits :: "nat \<Rightarrow> nat" where
  "lead_bits n = (if n < 128 then n else if n < 224 then n mod 32 else if n < 240 then n mod 16 else n mod 8)"

function utf8_points :: "string \<Rightarrow> nat list" where
  "utf8_points [] = []"
| "utf8_points (b # bs) =
     (let k = (case lead_ranges (char_code b) of None \<Rightarrow> 0 | Some rs \<Rightarrow> length rs)
      in foldl (\<lambda>n c. 64 * n + char_code c mod 64) (lead_bits (char_code b)) (take k bs)
         # utf8_points (drop k bs))"
  by pat_completeness auto
termination
  by (relation "measure length") auto

definition lower_hex :: "nat \<Rightarrow> char" where
  "lower_hex n = (if n < 10 then char_of (48 + n) else char_of (87 + n))"

definition u_escape :: "nat \<Rightarrow> string" where
  "u_escape n = [CHR 0x5C, CHR ''u'', lower_hex (n div 4096 mod 16), lower_hex (n div 256 mod 16),
     lower_hex (n div 16 mod 16), lower_hex (n mod 16)]"

definition json_escape_point :: "nat \<Rightarrow> string" where
  "json_escape_point n =
     (if n = 0x22 then [CHR 0x5C, CHR 0x22] else if n = 0x5C then [CHR 0x5C, CHR 0x5C]
      else if n = 10 then [CHR 0x5C, CHR ''n''] else if n = 13 then [CHR 0x5C, CHR ''r'']
      else if n = 9 then [CHR 0x5C, CHR ''t''] else if n = 12 then [CHR 0x5C, CHR ''f'']
      else if n = 8 then [CHR 0x5C, CHR ''b'']
      else if 32 \<le> n \<and> n \<le> 126 then [char_of n]
      else if n < 65536 then u_escape n
      else u_escape (0xD800 + (n - 65536) div 1024) @ u_escape (0xDC00 + (n - 65536) mod 1024))"

definition json_string_escape :: "string \<Rightarrow> string" where
  "json_string_escape v = concat (map json_escape_point (utf8_points v))"

text \<open>
  A JSON reader inside a string literal: what follows the closing quote, or \<open>None\<close> where the
  literal is broken.
\<close>

fun json_skip :: "string \<Rightarrow> string option" where
  "json_skip [] = None"
| "json_skip (c # s) =
     (if c = CHR 0x22 then Some s
      else if c = CHR 0x5C then
        (case s of
           [] \<Rightarrow> None
         | e # t \<Rightarrow>
             if e = CHR ''u'' then
               (case t of
                  h1 # h2 # h3 # h4 # r \<Rightarrow>
                    if list_all (\<lambda>h. hex_value h \<noteq> None) [h1, h2, h3, h4] then json_skip r else None
                | _ \<Rightarrow> None)
             else if e \<in> {CHR 0x22, CHR 0x5C, CHR ''/'', CHR ''b'', CHR ''f'', CHR ''n'', CHR ''r'', CHR ''t''}
             then json_skip t else None)
      else if char_code c < 32 then None
      else json_skip s)"

lemma lower_hex_value: "n < 16 \<Longrightarrow> hex_value (lower_hex n) = Some n"
  by (auto simp: hex_value_def lower_hex_def char_code_def)

lemma json_skip_u: "json_skip (u_escape n @ s) = json_skip s"
  by (simp add: u_escape_def lower_hex_value)

lemma json_skip_plain:
  fixes n :: nat
  assumes "32 \<le> n" "n \<le> 126" "n \<noteq> 0x22" "n \<noteq> 0x5C"
  shows "json_skip (char_of n # s) = json_skip s"
proof -
  have code: "char_code (char_of n) = n" using assms by (simp add: char_code_def)
  have "char_of n \<noteq> CHR 0x22"
  proof
    assume "char_of n = CHR 0x22"
    then have "char_code (char_of n) = char_code CHR 0x22" by simp
    then show False using code assms by (simp add: char_code_def)
  qed
  moreover have "char_of n \<noteq> CHR 0x5C"
  proof
    assume "char_of n = CHR 0x5C"
    then have "char_code (char_of n) = char_code CHR 0x5C" by simp
    then show False using code assms by (simp add: char_code_def)
  qed
  ultimately show ?thesis using assms code by simp
qed

lemma json_skip_point: "json_skip (json_escape_point n @ s) = json_skip s"
proof (cases "32 \<le> n \<and> n \<le> 126 \<and> n \<noteq> 0x22 \<and> n \<noteq> 0x5C")
  case True
  then have "json_escape_point n = [char_of n]" by (simp add: json_escape_point_def)
  then show ?thesis using json_skip_plain True by simp
next
  case False
  show ?thesis
  proof (cases "n \<in> {0x22, 0x5C, 10, 13, 9, 12, 8}")
    case True
    then show ?thesis by (auto simp: json_escape_point_def)
  next
    case out: False
    have "json_escape_point n = (if n < 65536 then u_escape n
        else u_escape (0xD800 + (n - 65536) div 1024) @ u_escape (0xDC00 + (n - 65536) mod 1024))"
      using out False by (auto simp: json_escape_point_def)
    then show ?thesis by (simp add: json_skip_u)
  qed
qed

text \<open>
  No value ends the string it is put into, or breaks it: a reader passes over the escaped value
  and goes on with the text behind it.
\<close>

lemma json_escape_stays_inside: "json_skip (json_string_escape v @ s) = json_skip s"
proof -
  have "json_skip (concat (map json_escape_point ns) @ s) = json_skip s" for ns
    by (induction ns) (simp_all add: json_skip_point)
  then show ?thesis by (simp add: json_string_escape_def)
qed

end
