(* ===== verification/Totp_Code.thy ===== *)
theory Totp_Code
  imports Text_Codecs "HOL-Library.Word"
begin

section \<open>One-time codes (proxy/swap\_addon.py)\<close>

text \<open>
  \<open>_totp_code\<close> and what it takes from the standard library: \<open>base64.b32decode\<close>, \<open>hashlib.sha1\<close> on
  32-bit words, \<open>hmac.new(..).digest()\<close> and the two \<open>struct\<close> formats. The clock is after 1970, so the
  counter is not negative.
\<close>

unbundle bit_operations_syntax

type_synonym byte = "8 word"
type_synonym word32 = "32 word"

subsection \<open>Bytes\<close>

definition be_value :: "byte list \<Rightarrow> int" where
  "be_value bs = foldl (\<lambda>n b. 256 * n + uint b) 0 bs"

text \<open>\<open>n.to_bytes(k, "big")\<close>.\<close>

fun be_bytes :: "nat \<Rightarrow> int \<Rightarrow> byte list" where
  "be_bytes 0 n = []"
| "be_bytes (Suc k) n = be_bytes k (n div 256) @ [word_of_int (n mod 256)]"

lemma length_be_bytes [simp]: "length (be_bytes k n) = k"
  by (induction k arbitrary: n) simp_all

subsection \<open>SHA-1\<close>

definition be_word :: "byte list \<Rightarrow> word32" where
  "be_word bs = word_of_int (be_value bs)"

definition sha1_pad :: "byte list \<Rightarrow> byte list" where
  "sha1_pad m =
     m @ 0x80 # replicate ((119 - length m mod 64) mod 64) 0 @ be_bytes 8 (8 * int (length m))"

fun chunks :: "nat \<Rightarrow> 'a list \<Rightarrow> 'a list list" where
  "chunks 0 xs = []"
| "chunks (Suc n) [] = []"
| "chunks (Suc n) (x # xs) = (x # take n xs) # chunks (Suc n) (drop n xs)"

text \<open>The message schedule, newest word first.\<close>

definition schedule_step :: "word32 list \<Rightarrow> word32 list" where
  "schedule_step ws = word_rotl 1 (ws ! 2 XOR ws ! 7 XOR ws ! 13 XOR ws ! 15) # ws"

definition schedule :: "byte list \<Rightarrow> word32 list" where
  "schedule blk = rev ((schedule_step ^^ 64) (rev (map be_word (chunks 4 blk))))"

type_synonym chain = "word32 \<times> word32 \<times> word32 \<times> word32 \<times> word32"

definition sha1_f :: "nat \<Rightarrow> word32 \<Rightarrow> word32 \<Rightarrow> word32 \<Rightarrow> word32" where
  "sha1_f t b c d =
     (if t < 20 then (b AND c) OR (NOT b AND d)
      else if t < 40 then b XOR c XOR d
      else if t < 60 then (b AND c) OR (b AND d) OR (c AND d)
      else b XOR c XOR d)"

definition sha1_k :: "nat \<Rightarrow> word32" where
  "sha1_k t =
     (if t < 20 then 0x5A827999 else if t < 40 then 0x6ED9EBA1 else if t < 60 then 0x8F1BBCDC
      else 0xCA62C1D6)"

fun sha1_rounds :: "nat \<Rightarrow> word32 list \<Rightarrow> chain \<Rightarrow> chain" where
  "sha1_rounds t [] h = h"
| "sha1_rounds t (w # ws) (a, b, c, d, e) =
     sha1_rounds (Suc t) ws (word_rotl 5 a + sha1_f t b c d + e + sha1_k t + w, a, word_rotl 30 b, c, d)"

definition sha1_block :: "chain \<Rightarrow> byte list \<Rightarrow> chain" where
  "sha1_block h blk =
     (case (h, sha1_rounds 0 (schedule blk) h) of
        ((a, b, c, d, e), (a', b', c', d', e')) \<Rightarrow> (a + a', b + b', c + c', d + d', e + e'))"

definition sha1_init :: chain where
  "sha1_init = (0x67452301, 0xEFCDAB89, 0x98BADCFE, 0x10325476, 0xC3D2E1F0)"

definition sha1 :: "byte list \<Rightarrow> byte list" where
  "sha1 m =
     (case foldl sha1_block sha1_init (chunks 64 (sha1_pad m)) of
        (a, b, c, d, e) \<Rightarrow> concat (map (\<lambda>x. be_bytes 4 (uint x)) [a, b, c, d, e]))"

lemma length_sha1 [simp]: "length (sha1 m) = 20"
  by (simp add: sha1_def split: prod.split)

subsection \<open>HMAC\<close>

definition hmac_key :: "byte list \<Rightarrow> byte list" where
  "hmac_key k = (let k' = (if 64 < length k then sha1 k else k) in k' @ replicate (64 - length k') 0)"

definition hmac_sha1 :: "byte list \<Rightarrow> byte list \<Rightarrow> byte list" where
  "hmac_sha1 k m =
     (let pad = (\<lambda>p. map (\<lambda>b. b XOR p) (hmac_key k)) in sha1 (pad 0x5C @ sha1 (pad 0x36 @ m)))"

lemma length_hmac_sha1 [simp]: "length (hmac_sha1 k m) = 20"
  by (simp add: hmac_sha1_def Let_def)

subsection \<open>Base32\<close>

definition b32_value :: "char \<Rightarrow> nat option" where
  "b32_value c =
     (let n = char_code c in
      if 65 \<le> n \<and> n \<le> 90 then Some (n - 65) else if 50 \<le> n \<and> n \<le> 55 then Some (n - 24) else None)"

fun b32_acc :: "string \<Rightarrow> int \<Rightarrow> int option" where
  "b32_acc [] n = Some n"
| "b32_acc (c # cs) n = (case b32_value c of None \<Rightarrow> None | Some v \<Rightarrow> b32_acc cs (32 * n + int v))"

text \<open>The last quantum is shifted up by its padding and loses the bytes the padding covers.\<close>

definition b32_quantum :: "nat \<Rightarrow> string \<Rightarrow> byte list option" where
  "b32_quantum pad q =
     map_option (\<lambda>n. if length q = 8 then be_bytes 5 n
                     else take ((43 - 5 * pad) div 8) (be_bytes 5 (n * 32 ^ pad))) (b32_acc q 0)"

definition all_some :: "'a option list \<Rightarrow> 'a list option" where
  "all_some xs = (if list_all (\<lambda>x. x \<noteq> None) xs then Some (map the xs) else None)"

definition b32_decode :: "string \<Rightarrow> byte list option" where
  "b32_decode s =
     (let core = rstrip_char CHR ''='' s; pad = length s - length core in
      if length s mod 8 \<noteq> 0 then None
      else case all_some (map (b32_quantum pad) (chunks 8 core)) of
        None \<Rightarrow> None
      | Some qs \<Rightarrow> if pad \<in> {0, 1, 3, 4, 6} then Some (concat qs) else None)"

subsection \<open>The code\<close>

text \<open>\<open>str(n).zfill(k)\<close>.\<close>

definition zfill :: "nat \<Rightarrow> string \<Rightarrow> string" where
  "zfill k s = replicate (k - length s) CHR ''0'' @ s"

definition truncated :: "byte list \<Rightarrow> int" where
  "truncated digest =
     (let off = unat (last digest AND 0x0F) in uint (be_word (take 4 (drop off digest)) AND 0x7FFFFFFF))"

definition totp_code :: "string \<Rightarrow> int \<Rightarrow> string option" where
  "totp_code seed now =
     (let s = str_strip seed;
          padded = str_upper s @ replicate ((8 - length s mod 8) mod 8) CHR ''=''
      in case b32_decode padded of
           None \<Rightarrow> None
         | Some key \<Rightarrow>
             let counter = be_bytes 8 (now div seconds 30)
             in Some (zfill 6 (dec_string (nat (truncated (hmac_sha1 key counter) mod 1000000)))))"

subsection \<open>Six digits\<close>

lemma length_dec_string: "n < 10 ^ k \<Longrightarrow> 0 < k \<Longrightarrow> length (dec_string n) \<le> k"
proof (induction n arbitrary: k rule: dec_string.induct)
  case (1 n)
  show ?case
  proof (cases "n < 10")
    case True
    then show ?thesis using 1(3) by (subst dec_string.simps) simp
  next
    case False
    then have k: "1 < k" using 1(2,3) by (cases k; cases "k - 1") auto
    then have "n div 10 < 10 ^ (k - 1)" using 1(2) by (cases k) (auto simp: less_mult_imp_div_less)
    then have "length (dec_string (n div 10)) \<le> k - 1" using 1(1) [OF False] k by simp
    then show ?thesis using False k by (subst dec_string.simps) simp
  qed
qed

lemma zfill_digits: "list_all is_digit s \<Longrightarrow> list_all is_digit (zfill k s)"
  by (auto simp: zfill_def list_all_iff is_digit_def char_code_def)

lemma length_zfill: "length s \<le> k \<Longrightarrow> length (zfill k s) = k"
  by (simp add: zfill_def)

lemma totp_digits:
  assumes "totp_code seed now = Some c" shows "length c = 6 \<and> list_all is_digit c"
proof -
  obtain x :: int where x: "c = zfill 6 (dec_string (nat (x mod 1000000)))"
    using assms by (auto simp: totp_code_def Let_def split: option.splits)
  have "nat (x mod 1000000) < 10 ^ 6" by (simp add: nat_less_iff)
  then have "length (dec_string (nat (x mod 1000000))) \<le> 6" by (intro length_dec_string) simp_all
  then show ?thesis
    using all_digits_dec_string [of "nat (x mod 1000000)"] zfill_digits length_zfill x by (simp add: all_digits_def)
qed

text \<open>
  C36: A one-time code is six digits. Whatever the seed and the instant, what stands for the code is
  a text of exactly six decimal digits, leading zeros included.
\<close>

theorem totp_code_six_digits:
  assumes "totp_code seed now = Some c" shows "length c = 6 \<and> list_all is_digit c"
  by (rule totp_digits [OF assms])

lemma totp_code_six_digits_witness:
  "\<exists>c. totp_code ''gezdgnbvgy3tqojqgezdgnbvgy3tqojq '' (seconds 59) = Some c \<and> length c = 6 \<and> list_all is_digit c"
proof -
  have "b32_decode ''GEZDGNBVGY3TQOJQGEZDGNBVGY3TQOJQ'' \<noteq> None" by code_simp
  moreover have "str_strip ''gezdgnbvgy3tqojqgezdgnbvgy3tqojq '' = ''gezdgnbvgy3tqojqgezdgnbvgy3tqojq''" by code_simp
  moreover have "str_upper ''gezdgnbvgy3tqojqgezdgnbvgy3tqojq'' = ''GEZDGNBVGY3TQOJQGEZDGNBVGY3TQOJQ''" by code_simp
  ultimately obtain c where c: "totp_code ''gezdgnbvgy3tqojqgezdgnbvgy3tqojq '' (seconds 59) = Some c"
    by (auto simp: totp_code_def Let_def split: option.splits)
  then show ?thesis using totp_code_six_digits [OF c] by blast
qed

text \<open>The code changes with the 30-second step only.\<close>

lemma totp_code_step: "now div seconds 30 = now' div seconds 30 \<Longrightarrow> totp_code seed now = totp_code seed now'"
  by (simp only: totp_code_def)

end
