(* ===== verification/Swap_Text.thy ===== *)
theory Swap_Text
  imports Swap_Gate Swap_Approvals Totp_Code
begin

section \<open>Substitution of placeholders (proxy/swap_addon.py)\<close>

text \<open>
  From the placeholder grammar to the substitution of one text: \<open>_resolve\<close>, the audit writers,
  \<open>_swap_text\<close> in its three modes, and its JSON, form and Basic variants. A result \<open>None\<close> is an
  exception that leaves the hook (only the approval filing raises one). What the surroundings
  answer, at each of the successive interactions, is a function of their number: the clock, the
  contents of \<open>grants.json\<close>, the fate of an audit write, the outcome of a filing.
\<close>

subsection \<open>The placeholder grammar\<close>

datatype spelling = Plain | Encoded

text \<open>The separator: a colon, or its percent encoding with either case of the digit.\<close>

fun strip_sep :: "spelling \<Rightarrow> string \<Rightarrow> string option" where
  "strip_sep Plain (c # s) = (if c = CHR '':'' then Some s else None)"
| "strip_sep Encoded (c # d # e # s) =
     (if c = CHR ''%'' \<and> d = CHR ''3'' \<and> (e = CHR ''a'' \<or> e = CHR ''A'') then Some s else None)"
| "strip_sep _ _ = None"

definition word_of :: "string \<Rightarrow> string" where "word_of s = takeWhile is_word_char s"

definition after_word :: "string \<Rightarrow> string" where "after_word s = dropWhile is_word_char s"

text \<open>A match at the start of a text: the name, the entry, and the text behind the match.\<close>

definition placeholder_at :: "spelling \<Rightarrow> string \<Rightarrow> (string \<times> string option \<times> string) option" where
  "placeholder_at sp s =
     (if \<not> prefix ''hsurr'' s then None
      else case strip_sep sp (drop 5 s) of
        None \<Rightarrow> None
      | Some t \<Rightarrow>
          if word_of t = [] then None
          else (case strip_sep sp (after_word t) of
              None \<Rightarrow> Some (word_of t, None, after_word t)
            | Some u \<Rightarrow>
                if word_of u = [] then Some (word_of t, None, after_word t)
                else Some (word_of t, Some (word_of u), after_word u)))"

datatype piece = Lit char | Ph string "string option" string

lemma strip_sep_suffix: "strip_sep sp s = Some t \<Longrightarrow> \<exists>p. s = p @ t \<and> p \<noteq> []"
  by (induction sp s rule: strip_sep.induct) (auto split: if_splits)

lemma word_parts: "word_of s @ after_word s = s"
  by (simp add: word_of_def after_word_def)

lemma placeholder_at_suffix:
  assumes "placeholder_at sp s = Some (n, e, r)" shows "\<exists>p. s = p @ r \<and> p \<noteq> []"
proof -
  obtain t where t: "strip_sep sp (drop 5 s) = Some t" "prefix ''hsurr'' s"
    using assms by (auto simp: placeholder_at_def split: if_splits option.splits)
  obtain p where p: "drop 5 s = p @ t" "p \<noteq> []" using strip_sep_suffix [OF t(1)] by blast
  then have s: "s = (take 5 s @ p @ word_of t) @ after_word t"
    by (metis append_assoc append_take_drop_id word_parts)
  show ?thesis
  proof (cases "r = after_word t")
    case True
    then show ?thesis using s p by (intro exI [of _ "take 5 s @ p @ word_of t"]) simp
  next
    case False
    then obtain u where u: "strip_sep sp (after_word t) = Some u" "r = after_word u"
      using assms t by (auto simp: placeholder_at_def split: if_splits option.splits)
    then obtain q where "after_word t = q @ u" using strip_sep_suffix by blast
    then have "s = (take 5 s @ p @ word_of t @ q @ word_of u) @ r"
      using s u(2) by (metis append_assoc word_parts)
    then show ?thesis using p(2) by (intro exI [of _ "take 5 s @ p @ word_of t @ q @ word_of u"]) simp
  qed
qed

lemma placeholder_at_shorter: "placeholder_at sp s = Some (n, e, r) \<Longrightarrow> length r < length s"
  using placeholder_at_suffix by fastforce

text \<open>The matches of \<open>re.sub\<close>, leftmost first, with the characters between them.\<close>

function pieces :: "spelling \<Rightarrow> string \<Rightarrow> piece list" where
  "pieces sp [] = []"
| "pieces sp (c # s) =
     (case placeholder_at sp (c # s) of
        None \<Rightarrow> Lit c # pieces sp s
      | Some (n, e, r) \<Rightarrow> Ph n e (take (length (c # s) - length r) (c # s)) # pieces sp r)"
  by pat_completeness auto
termination
  by (relation "measure (length \<circ> snd)") (auto dest: placeholder_at_shorter)

fun piece_text :: "piece \<Rightarrow> string" where
  "piece_text (Lit c) = [c]"
| "piece_text (Ph n e t) = t"

text \<open>The name an audit line gives a match.\<close>

definition canonical :: "string \<Rightarrow> string option \<Rightarrow> string" where
  "canonical n e = ''hsurr:'' @ n @ (case e of None \<Rightarrow> [] | Some x \<Rightarrow> '':'' @ x)"

text \<open>The pieces spell the text.\<close>

lemma pieces_spell: "concat (map piece_text (pieces sp s)) = s"
proof (induction sp s rule: pieces.induct)
  case (2 sp c s)
  show ?case
  proof (cases "placeholder_at sp (c # s)")
    case None
    then show ?thesis using 2 by simp
  next
    case (Some m)
    obtain n e r where m: "m = (n, e, r)" by (cases m)
    obtain p where p: "c # s = p @ r" using placeholder_at_suffix Some m by blast
    have "take (length (c # s) - length r) (c # s) = p" unfolding p by simp
    have rec: "concat (map piece_text (pieces sp r)) = r" using 2(2) Some m by blast
    show ?thesis
      unfolding pieces.simps Some m option.case prod.case list.map concat.simps piece_text.simps rec
        \<open>take (length (c # s) - length r) (c # s) = p\<close> by (rule p [symmetric])
  qed
qed simp


subsection \<open>State, surroundings and the audit trail\<close>

datatype secret = Single string | Multi "(string \<times> string) list"

text \<open>
  An audit line, without the columns every line of a request has in common (time, egress address,
  tenant and flow; \<open>Audit_Log\<close> renders the text).
\<close>

datatype audit_line =
  Swapped string string
| Refused_Swap string string string
| Noted string string string
| Authority_Mismatch string

record swap =
  sw_secrets :: "(string \<times> secret) list"
  sw_hosts :: "string list"
  sw_stream_hosts :: "string list"
  sw_smoke_seen :: "string list"
  sw_poisoned :: bool
  sw_startup_checked :: bool
  sw_cookie_names :: "string list"
  sw_gate :: gate
  sw_filer :: filer
  sw_signals :: "(string \<times> signal) list option"
  sw_log :: "audit_line list"
  sw_tick :: nat

record surroundings =
  w_now :: "nat \<Rightarrow> int"
  w_disk :: "nat \<Rightarrow> grants_disk"
  w_log_ok :: "nat \<Rightarrow> bool"
  w_flushed :: "nat \<Rightarrow> nat"
  w_filing :: "nat \<Rightarrow> filing_env"
  w_json_ok :: "string \<Rightarrow> bool"
  w_approvals :: bool
  w_inference :: bool

definition tick :: "swap \<Rightarrow> swap" where
  "tick s = s\<lparr>sw_tick := Suc (sw_tick s)\<rparr>"

definition audit_write :: "surroundings \<Rightarrow> audit_line \<Rightarrow> swap \<Rightarrow> bool \<times> swap" where
  "audit_write w l s =
     (if w_log_ok w (sw_tick s) then (True, (tick s)\<lparr>sw_log := sw_log s @ [l]\<rparr>) else (False, tick s))"

definition audit :: "surroundings \<Rightarrow> string \<Rightarrow> string \<Rightarrow> swap \<Rightarrow> bool \<times> swap" where
  "audit w host matched s = audit_write w (Swapped host matched) s"

definition audit_refused :: "surroundings \<Rightarrow> string \<Rightarrow> string \<Rightarrow> string \<Rightarrow> swap \<Rightarrow> swap" where
  "audit_refused w host name reason s = snd (audit_write w (Refused_Swap host name reason) s)"

definition audit_note :: "surroundings \<Rightarrow> string \<Rightarrow> string \<Rightarrow> string \<Rightarrow> swap \<Rightarrow> swap" where
  "audit_note w host refused reason s = snd (audit_write w (Noted host refused reason) s)"

definition audit_authority_mismatch :: "surroundings \<Rightarrow> string \<Rightarrow> swap \<Rightarrow> swap" where
  "audit_authority_mismatch w host s = snd (audit_write w (Authority_Mismatch host) s)"

text \<open>One buffered swap: host, matched text, approval id.\<close>

type_synonym sunk = "string \<times> string \<times> string option"

definition sunk_line :: "sunk \<Rightarrow> audit_line" where
  "sunk_line = (\<lambda>(host, matched, aid). Swapped host matched)"

text \<open>A failed batch leaves the lines written before the failure.\<close>

definition audit_batch :: "surroundings \<Rightarrow> sunk list \<Rightarrow> swap \<Rightarrow> bool \<times> swap" where
  "audit_batch w entries s =
     (if entries = [] then (True, s)
      else if w_log_ok w (sw_tick s)
      then (True, (tick s)\<lparr>sw_log := sw_log s @ map sunk_line entries\<rparr>)
      else (False, (tick s)\<lparr>sw_log := sw_log s @ take (w_flushed w (sw_tick s)) (map sunk_line entries)\<rparr>))"

definition record_approval_signal :: "string \<Rightarrow> signal \<Rightarrow> swap \<Rightarrow> swap" where
  "record_approval_signal aid st s =
     (let sigs = (case sw_signals s of None \<Rightarrow> [] | Some l \<Rightarrow> l)
      in s\<lparr>sw_signals :=
           Some (if aid \<noteq> [] \<and> proxy_aid_ok aid \<and> (aid, st) \<notin> set sigs then sigs @ [(aid, st)] else sigs)\<rparr>)"

definition record_approved :: "string option \<Rightarrow> swap \<Rightarrow> swap" where
  "record_approved aid s =
     (case aid of None \<Rightarrow> s | Some a \<Rightarrow> if a = [] then s else record_approval_signal a Approved s)"

subsection \<open>Resolving one placeholder\<close>

definition host_is_smoke_only :: "string \<Rightarrow> swap \<Rightarrow> bool" where
  "host_is_smoke_only host s = (sw_smoke_seen s \<noteq> [] \<and> host_in_list host (sw_smoke_seen s))"

fun reason_text :: "reason \<Rightarrow> string" where
  "reason_text Unbound_Host = ''unbound-host''"
| "reason_text Method_Not_Allowed = ''method-not-allowed''"
| "reason_text Path_Not_Allowed = ''path-not-allowed''"
| "reason_text Path_Not_Verifiable = ''path-not-verifiable''"

text \<open>The stored value an entry names, once the request is allowed.\<close>

definition entry_value ::
  "surroundings \<Rightarrow> string \<Rightarrow> string \<Rightarrow> string \<Rightarrow> secret \<Rightarrow> swap \<Rightarrow> string option \<times> swap"
where
  "entry_value w host name entry val s =
     (case val of
        Multi es \<Rightarrow>
          if entry = ''totp'' then
            (case map_of es ''totp'' of
               None \<Rightarrow> (None, s)
             | Some seed \<Rightarrow> (totp_code seed (w_now w (sw_tick s)), tick s))
          else (map_of es entry, s)
      | Single v \<Rightarrow>
          if entry = ''access_token'' \<or> declared_entries (g_registry (sw_gate s)) name = [entry]
          then (Some v, s)
          else (None, audit_refused w host name ''unknown-entry'' s))"

definition file_refusal ::
  "surroundings \<Rightarrow> string \<Rightarrow> string \<Rightarrow> string option \<Rightarrow> string option \<Rightarrow> reason \<Rightarrow> swap
    \<Rightarrow> unit option \<times> swap"
where
  "file_refusal w name host verb path r s =
     (if r \<notin> {Method_Not_Allowed, Path_Not_Allowed} then (Some (), s)
      else case approval_signal_for_refusal (w_approvals w) (w_filing w (sw_tick s)) (w_now w (sw_tick s))
                  name host verb path (reason_text r) (sw_filer s) of
          (None, f) \<Rightarrow> (None, (tick s)\<lparr>sw_filer := f\<rparr>)
        | (Some sigs, f) \<Rightarrow>
            (Some (), fold (\<lambda>(aid, st). record_approval_signal aid st) sigs ((tick s)\<lparr>sw_filer := f\<rparr>)))"

definition ask_gate ::
  "surroundings \<Rightarrow> string \<Rightarrow> string \<Rightarrow> string option \<Rightarrow> string option \<Rightarrow> swap \<Rightarrow> verdict \<times> swap"
where
  "ask_gate w name host verb path s =
     (let (v, g) = allows_request (w_disk w (sw_tick s)) (w_now w (sw_tick s)) name host verb path (sw_gate s)
      in (v, (tick s)\<lparr>sw_gate := g\<rparr>))"

text \<open>\<open>_resolve\<close>: the value, or \<open>None\<close> to leave the placeholder, and the id of the approving grant.\<close>

definition resolve ::
  "surroundings \<Rightarrow> string \<Rightarrow> string \<Rightarrow> string \<Rightarrow> string option \<Rightarrow> string option \<Rightarrow> location option
    \<Rightarrow> swap \<Rightarrow> (string option \<times> string option) option \<times> swap"
where
  "resolve w name entry host verb path loc s =
     (if sw_poisoned s then (Some (None, None), audit_refused w host name ''smoke-hosts-unreadable'' s)
      else if name \<noteq> ''smoke-test'' \<and> host_is_smoke_only host s
      then (Some (None, None), audit_refused w host name ''smoke-host-restricted'' s)
      else case map_of (sw_secrets s) name of
        None \<Rightarrow> (Some (None, None), audit_refused w host name ''unknown-credential'' s)
      | Some val \<Rightarrow>
          (case ask_gate w name host verb path s of
             (Refused r, s1) \<Rightarrow>
               (case file_refusal w name host verb path r (audit_refused w host name (reason_text r) s1) of
                  (None, s2) \<Rightarrow> (None, s2)
                | (Some _, s2) \<Rightarrow> (Some (None, None), s2))
           | (Allowed g, s1) \<Rightarrow>
               let aid = (case g of None \<Rightarrow> None | Some r \<Rightarrow> if w_approvals w then gr_approval_id r else None)
               in if \<not> placement_allows (g_registry (sw_gate s1)) name (Some entry) loc
                  then (Some (None, None), audit_refused w host name ''placement-mismatch'' s1)
                  else let (v, s2) = entry_value w host name entry val s1 in (Some (v, aid), s2)))"

subsection \<open>Substituting in a text\<close>

datatype swap_mode = Inline | Probe | Sink

text \<open>
  The replacement function of one match: the released value or the matched text, and the buffered
  entries of a pass with a sink.
\<close>

definition swap_piece ::
  "surroundings \<Rightarrow> swap_mode \<Rightarrow> (string \<Rightarrow> string) \<Rightarrow> string list option \<Rightarrow> string \<Rightarrow> string option
    \<Rightarrow> string option \<Rightarrow> location option \<Rightarrow> piece \<Rightarrow> swap \<Rightarrow> (string \<times> sunk list) option \<times> swap"
where
  "swap_piece w md enc allow host verb path loc p s =
     (case p of
        Lit c \<Rightarrow> (Some ([c], []), s)
      | Ph name e txt \<Rightarrow>
          if (case allow of None \<Rightarrow> False | Some ns \<Rightarrow> name \<notin> set ns) then (Some (txt, []), s)
          else case resolve w name (or_default e ''access_token'') host verb path loc s of
            (None, s1) \<Rightarrow> (None, s1)
          | (Some (None, _), s1) \<Rightarrow> (Some (txt, []), s1)
          | (Some (Some v, aid), s1) \<Rightarrow>
              (case md of
                 Probe \<Rightarrow> (Some (enc v, []), s1)
               | Sink \<Rightarrow> (Some (enc v, [(host, canonical name e, aid)]), s1)
               | Inline \<Rightarrow>
                   (case audit w host (canonical name e) s1 of
                      (False, s2) \<Rightarrow> (Some (txt, []), s2)
                    | (True, s2) \<Rightarrow> (Some (enc v, []), record_approved aid s2))))"

fun swap_pieces ::
  "surroundings \<Rightarrow> swap_mode \<Rightarrow> (string \<Rightarrow> string) \<Rightarrow> string list option \<Rightarrow> string \<Rightarrow> string option
    \<Rightarrow> string option \<Rightarrow> location option \<Rightarrow> piece list \<Rightarrow> swap \<Rightarrow> (string \<times> sunk list) option \<times> swap"
where
  "swap_pieces w md enc allow host verb path loc [] s = (Some ([], []), s)"
| "swap_pieces w md enc allow host verb path loc (p # ps) s =
     (case swap_piece w md enc allow host verb path loc p s of
        (None, s1) \<Rightarrow> (None, s1)
      | (Some (t, k), s1) \<Rightarrow>
          (case swap_pieces w md enc allow host verb path loc ps s1 of
             (None, s2) \<Rightarrow> (None, s2)
           | (Some (ts, ks), s2) \<Rightarrow> (Some (t @ ts, k @ ks), s2)))"

definition text_result :: "(string \<times> sunk list) option \<times> swap \<Rightarrow> string option \<times> swap" where
  "text_result = (\<lambda>(r, s). (map_option fst r, s))"

text \<open>\<open>_swap_text\<close> with its audit writes inline.\<close>

definition swap_text ::
  "surroundings \<Rightarrow> string list option \<Rightarrow> string \<Rightarrow> string option \<Rightarrow> string option \<Rightarrow> location option
    \<Rightarrow> string \<Rightarrow> swap \<Rightarrow> string option \<times> swap"
where
  "swap_text w allow host verb path loc text s =
     text_result (swap_pieces w Inline (\<lambda>v. v) allow host verb path loc (pieces Plain text) s)"

definition swap_urlencoded ::
  "surroundings \<Rightarrow> string \<Rightarrow> string option \<Rightarrow> string option \<Rightarrow> location option \<Rightarrow> string \<Rightarrow> swap
    \<Rightarrow> string option \<times> swap"
where
  "swap_urlencoded w host verb path loc text s =
     text_result (swap_pieces w Inline quote None host verb path loc (pieces Encoded text) s)"

definition json_refusal :: "surroundings \<Rightarrow> string \<Rightarrow> string \<Rightarrow> swap \<Rightarrow> swap" where
  "json_refusal w host reason s = audit_note w host ''json-swap'' reason s"

definition swap_json_text ::
  "surroundings \<Rightarrow> string \<Rightarrow> string option \<Rightarrow> string option \<Rightarrow> location option \<Rightarrow> string \<Rightarrow> swap
    \<Rightarrow> string option \<times> swap"
where
  "swap_json_text w host verb path loc text s =
     (let ps = pieces Plain text;
          pass = (\<lambda>md. swap_pieces w md json_string_escape None host verb path loc ps)
      in case pass Probe s of
           (None, s1) \<Rightarrow> (None, s1)
         | (Some (probe, _), s1) \<Rightarrow>
             if probe = text then (Some text, s1)
             else if \<not> w_json_ok w probe then (Some text, json_refusal w host ''invalid-json-after-swap'' s1)
             else
               let before = (case sw_signals s1 of None \<Rightarrow> [] | Some l \<Rightarrow> l)
               in (case pass Sink s1 of
                     (None, s2) \<Rightarrow> (None, s2)
                   | (Some (new_text, sink), s2) \<Rightarrow>
                       if new_text \<noteq> probe
                       then (Some text, json_refusal w host ''probe-diverged'' (s2\<lparr>sw_signals := Some before\<rparr>))
                       else (case audit_batch w sink s2 of
                           (False, s3) \<Rightarrow>
                             (Some text, json_refusal w host ''audit-flush-failed'' (s3\<lparr>sw_signals := Some before\<rparr>))
                         | (True, s3) \<Rightarrow>
                             (Some new_text, fold (\<lambda>(_, _, aid). record_approved aid) sink s3))))"

text \<open>The substitution of each of several texts in turn.\<close>

fun swap_each ::
  "('x \<Rightarrow> swap \<Rightarrow> 'y option \<times> swap) \<Rightarrow> 'x list \<Rightarrow> swap \<Rightarrow> 'y list option \<times> swap"
where
  "swap_each f [] s = (Some [], s)"
| "swap_each f (x # xs) s =
     (case f x s of
        (None, s1) \<Rightarrow> (None, s1)
      | (Some y, s1) \<Rightarrow>
          (case swap_each f xs s1 of
             (None, s2) \<Rightarrow> (None, s2)
           | (Some ys, s2) \<Rightarrow> (Some (y # ys), s2)))"

definition swap_field ::
  "(string \<Rightarrow> swap \<Rightarrow> string option \<times> swap) \<Rightarrow> string \<times> string \<Rightarrow> swap \<Rightarrow> (string \<times> string) option \<times> swap"
where
  "swap_field f = (\<lambda>(k, v) s. case f v s of (r, s1) \<Rightarrow> (map_option (Pair k) r, s1))"

definition swap_form_body ::
  "surroundings \<Rightarrow> string \<Rightarrow> string option \<Rightarrow> string option \<Rightarrow> location option \<Rightarrow> string \<Rightarrow> swap
    \<Rightarrow> string option \<times> swap"
where
  "swap_form_body w host verb path loc text s =
     (case swap_each (swap_field (swap_text w None host verb path loc)) (parse_qsl text) s of
        (None, s1) \<Rightarrow> (None, s1)
      | (Some new_pairs, s1) \<Rightarrow>
          if new_pairs \<noteq> parse_qsl text then (Some (urlencode new_pairs), s1)
          else swap_urlencoded w host verb path loc text s1)"

subsection \<open>Basic credentials\<close>

definition basic_decoded :: "string \<Rightarrow> string option" where
  "basic_decoded v =
     (let scheme = before_char CHR '' '' v; b64 = str_strip (drop (Suc (length scheme)) v)
      in if str_lower scheme \<noteq> ''basic'' \<or> b64 = [] then None
         else case b64_decode b64 of
           None \<Rightarrow> None
         | Some d \<Rightarrow> if utf8_ok d then Some d else None)"

definition swap_basic_auth ::
  "surroundings \<Rightarrow> string \<Rightarrow> string option \<Rightarrow> string option \<Rightarrow> string \<Rightarrow> swap \<Rightarrow> string option \<times> swap"
where
  "swap_basic_auth w host verb path v s =
     (case basic_decoded v of
        None \<Rightarrow> (Some v, s)
      | Some d \<Rightarrow>
          (case swap_text w None host verb path (Some (In_Header ''authorization:basic'')) d s of
             (None, s1) \<Rightarrow> (None, s1)
           | (Some d', s1) \<Rightarrow> (Some (if d' = d then v else ''Basic '' @ b64_encode d'), s1)))"

definition auth_location :: "string \<Rightarrow> location" where
  "auth_location v =
     (if str_lower (takeWhile (\<lambda>c. \<not> is_space c) (dropWhile is_space v)) = ''bearer''
      then In_Header ''authorization:bearer'' else In_Header ''authorization'')"

end
