(* ===== verification/Audit_Log.thy ===== *)
theory Audit_Log
  imports Swap_Text
begin

section \<open>The text of the audit log (proxy/swap_addon.py)\<close>

text \<open>
  The lines the audit writers put into the log: \<open>k=v\<close> tokens separated by spaces, every
  interpolated field reduced to printable ASCII by \<open>_sanitize_audit_field\<close>. What every line of a
  request has in common is a record: the instant as \<open>isoformat\<close> spells it, the pinned address, the
  authority of a mismatch, the tenant hint and the id of the flow.
\<close>

subsection \<open>Rendering\<close>

definition printable :: "char \<Rightarrow> bool" where
  "printable c = (33 \<le> char_code c \<and> char_code c \<le> 126)"

definition sanitize_audit_field :: "string option \<Rightarrow> string" where
  "sanitize_audit_field v = (case v of None \<Rightarrow> ''-'' | Some s \<Rightarrow> filter printable s)"

record columns =
  co_ts :: string
  co_ip :: "string option"
  co_authority :: "string option"
  co_tenant :: string
  co_flow :: "string option"

text \<open>\<open>x or "-"\<close>.\<close>

definition or_dash :: "string \<Rightarrow> string" where
  "or_dash s = (if s = [] then ''-'' else s)"

definition line_tail :: "columns \<Rightarrow> string \<Rightarrow> string" where
  "line_tail c ip =
     '' ip='' @ ip @ '' tenant='' @ or_dash (sanitize_audit_field (Some (co_tenant c)))
     @ '' flow='' @ sanitize_audit_field (co_flow c) @ [newline_char]"

definition line_head :: "columns \<Rightarrow> string \<Rightarrow> string" where
  "line_head c host = ''ts='' @ co_ts c @ '' host='' @ sanitize_audit_field (Some host)"

definition pinned_ip :: "columns \<Rightarrow> string" where
  "pinned_ip c = sanitize_audit_field (Some (or_default (co_ip c) ''-''))"

definition swap_audit_line :: "columns \<Rightarrow> string \<Rightarrow> string \<Rightarrow> string" where
  "swap_audit_line c host matched =
     line_head c host @ '' swapped='' @ sanitize_audit_field (Some matched) @ line_tail c (pinned_ip c)"

definition refused_line :: "columns \<Rightarrow> string \<Rightarrow> string \<Rightarrow> string \<Rightarrow> string" where
  "refused_line c host name reason =
     line_head c host @ '' refused=hsurr:'' @ sanitize_audit_field (Some name)
     @ '' reason='' @ sanitize_audit_field (Some reason) @ line_tail c (pinned_ip c)"

definition note_line :: "columns \<Rightarrow> string \<Rightarrow> string \<Rightarrow> string \<Rightarrow> string" where
  "note_line c host refused reason =
     line_head c host @ '' refused='' @ sanitize_audit_field (Some refused)
     @ '' reason='' @ sanitize_audit_field (Some reason) @ line_tail c (pinned_ip c)"

definition mismatch_line :: "columns \<Rightarrow> string \<Rightarrow> string" where
  "mismatch_line c host =
     line_head c host @ '' refused=authority-mismatch authority=''
     @ sanitize_audit_field (Some (or_default (co_authority c) ''-'')) @ line_tail c (pinned_ip c)"

fun render :: "columns \<Rightarrow> audit_line \<Rightarrow> string" where
  "render c (Swapped host matched) = swap_audit_line c host matched"
| "render c (Refused_Swap host name reason) = refused_line c host name reason"
| "render c (Noted host refused reason) = note_line c host refused reason"
| "render c (Authority_Mismatch host) = mismatch_line c host"

text \<open>\<open>_audit_ssrf_refused\<close>: the address is an argument.\<close>

definition render_egress :: "columns \<Rightarrow> string \<Rightarrow> string \<Rightarrow> string \<Rightarrow> string" where
  "render_egress c host ip reason =
     line_head c host @ '' refused=egress reason='' @ sanitize_audit_field (Some reason)
     @ line_tail c (sanitize_audit_field (Some ip))"

datatype log_entry = Line columns audit_line | Egress columns string string string

fun entry_text :: "log_entry \<Rightarrow> string" where
  "entry_text (Line c l) = render c l"
| "entry_text (Egress c host ip reason) = render_egress c host ip reason"

definition log_text :: "log_entry list \<Rightarrow> string" where
  "log_text ls = concat (map entry_text ls)"

subsection \<open>The guard of the log's file system\<close>

definition normalize_guard_thresholds :: "int \<Rightarrow> int \<Rightarrow> int \<times> int" where
  "normalize_guard_thresholds warn minimum =
     (let w = max 0 warn; m = max 0 minimum in (if w < m then m else w, m))"

text \<open>
  \<open>_open_audit_log\<close>: whether the log is opened, whether the low-space warning is given, and the instant
  of the last one. The free space is unknown when the file system cannot be queried.
\<close>

definition open_audit_log :: "int \<times> int \<Rightarrow> int \<Rightarrow> int \<Rightarrow> int option \<Rightarrow> int \<Rightarrow> bool \<times> bool \<times> int" where
  "open_audit_log limits cooldown now free last_warn =
     (case free of
        None \<Rightarrow> (True, False, last_warn)
      | Some f \<Rightarrow>
          let warned = (f < fst limits \<and> cooldown \<le> now - last_warn)
          in (\<not> f < snd limits, warned, if warned then now else last_warn))"

text \<open>The log is never refused without the warning band having been entered.\<close>

lemma guard_band:
  "normalize_guard_thresholds warn minimum = (w, m) \<Longrightarrow> 0 \<le> m \<and> m \<le> w \<and> warn \<le> w \<and> minimum \<le> m"
  by (auto simp: normalize_guard_thresholds_def Let_def split: if_splits)

lemma refusal_warned:
  assumes "fst (open_audit_log (normalize_guard_thresholds warn minimum) cooldown now free last_warn) = False"
    and "cooldown \<le> now - last_warn"
  shows "fst (snd (open_audit_log (normalize_guard_thresholds warn minimum) cooldown now free last_warn))"
proof -
  obtain w m where wm: "normalize_guard_thresholds warn minimum = (w, m)" by force
  show ?thesis using guard_band [OF wm] assms unfolding wm
    by (auto simp: open_audit_log_def Let_def split: option.splits)
qed

subsection \<open>Reading a log\<close>

text \<open>A reader that knows nothing but the format: lines, tokens, and the first equals sign of each.\<close>

definition read_token :: "string \<Rightarrow> string \<times> string" where
  "read_token t = (before_char CHR ''='' t, tl (dropWhile (\<lambda>x. x \<noteq> CHR ''='') t))"

definition read_log :: "string \<Rightarrow> (string \<times> string) list list" where
  "read_log t = map (\<lambda>l. map read_token (str_split CHR '' '' l)) (butlast (str_split newline_char t))"

text \<open>What one line says.\<close>

definition tail_fields :: "columns \<Rightarrow> string \<Rightarrow> (string \<times> string) list" where
  "tail_fields c ip =
     [(''ip'', ip), (''tenant'', or_dash (sanitize_audit_field (Some (co_tenant c)))),
      (''flow'', sanitize_audit_field (co_flow c))]"

definition head_fields :: "columns \<Rightarrow> string \<Rightarrow> (string \<times> string) list" where
  "head_fields c host = [(''ts'', co_ts c), (''host'', sanitize_audit_field (Some host))]"

fun fields :: "columns \<Rightarrow> audit_line \<Rightarrow> (string \<times> string) list" where
  "fields c (Swapped host matched) =
     head_fields c host @ [(''swapped'', sanitize_audit_field (Some matched))] @ tail_fields c (pinned_ip c)"
| "fields c (Refused_Swap host name reason) =
     head_fields c host @ [(''refused'', ''hsurr:'' @ sanitize_audit_field (Some name)),
       (''reason'', sanitize_audit_field (Some reason))] @ tail_fields c (pinned_ip c)"
| "fields c (Noted host refused reason) =
     head_fields c host @ [(''refused'', sanitize_audit_field (Some refused)),
       (''reason'', sanitize_audit_field (Some reason))] @ tail_fields c (pinned_ip c)"
| "fields c (Authority_Mismatch host) =
     head_fields c host @ [(''refused'', ''authority-mismatch''),
       (''authority'', sanitize_audit_field (Some (or_default (co_authority c) ''-'')))] @ tail_fields c (pinned_ip c)"

fun entry_fields :: "log_entry \<Rightarrow> (string \<times> string) list" where
  "entry_fields (Line c l) = fields c l"
| "entry_fields (Egress c host ip reason) =
     head_fields c host @ [(''refused'', ''egress''), (''reason'', sanitize_audit_field (Some reason))]
     @ tail_fields c (sanitize_audit_field (Some ip))"

fun entry_columns :: "log_entry \<Rightarrow> columns" where
  "entry_columns (Line c l) = c"
| "entry_columns (Egress c host ip reason) = c"

subsection \<open>No field forges a line\<close>

definition token :: "string \<times> string \<Rightarrow> string" where
  "token = (\<lambda>(k, v). k @ CHR ''='' # v)"

definition plain :: "string \<Rightarrow> bool" where
  "plain s = list_all printable s"

lemma plain_sanitize [simp]: "plain (sanitize_audit_field v)"
  by (auto simp: plain_def sanitize_audit_field_def list_all_iff printable_def char_code_def split: option.split)

lemma plain_append [simp]: "plain (a @ b) \<longleftrightarrow> plain a \<and> plain b"
  by (simp add: plain_def)

lemma plain_or_dash [simp]: "plain s \<Longrightarrow> plain (or_dash s)"
  by (simp add: or_dash_def plain_def printable_def char_code_def)

lemma plain_pinned [simp]: "plain (pinned_ip c)"
  by (simp add: pinned_ip_def)

lemma plain_no_sep:
  assumes "plain s" shows "CHR '' '' \<notin> set s" "newline_char \<notin> set s"
proof -
  have "\<not> printable CHR '' ''" "\<not> printable newline_char"
    by (simp_all add: printable_def char_code_def newline_char_def)
  then show "CHR '' '' \<notin> set s" "newline_char \<notin> set s" using assms by (auto simp: plain_def list_all_iff)
qed

lemma read_token: "CHR ''='' \<notin> set k \<Longrightarrow> read_token (token (k, v)) = (k, v)"
  by (simp add: read_token_def token_def before_char_append dropWhile_sep)

text \<open>A row that reads back: plain values under plain keys without an equals sign.\<close>

definition readable :: "(string \<times> string) list \<Rightarrow> bool" where
  "readable r = (r \<noteq> [] \<and> list_all (\<lambda>(k, v). CHR ''='' \<notin> set k \<and> plain k \<and> plain v) r)"

lemma token_plain:
  assumes "readable r" and "t \<in> set (map token r)" shows "plain t"
proof -
  obtain k v where "(k, v) \<in> set r" "t = token (k, v)" using assms(2) by auto
  moreover have "plain k \<and> plain v" using assms(1) calculation(1) by (auto simp: readable_def list_all_iff)
  moreover have "plain (CHR ''='' # v)" if "plain v" using that by (simp add: plain_def printable_def char_code_def)
  ultimately show ?thesis by (simp add: token_def)
qed

lemma read_row:
  assumes "readable r" shows "map read_token (str_split CHR '' '' (str_join CHR '' '' (map token r))) = r"
proof -
  have "str_split CHR '' '' (str_join CHR '' '' (map token r)) = map token r"
    using token_plain [OF assms] plain_no_sep(1) assms by (intro str_split_join) (auto simp: readable_def)
  moreover have "map read_token (map token r) = r"
    unfolding map_map using assms read_token by (intro map_idI) (auto simp: readable_def list_all_iff)
  ultimately show ?thesis by simp
qed

lemma in_set_join: "x \<in> set (str_join c ps) \<Longrightarrow> x = c \<or> (\<exists>p \<in> set ps. x \<in> set p)"
  by (induction c ps rule: str_join.induct) auto

lemma row_no_newline: "readable r \<Longrightarrow> newline_char \<notin> set (str_join CHR '' '' (map token r))"
proof
  assume r: "readable r" and n: "newline_char \<in> set (str_join CHR '' '' (map token r))"
  have "newline_char \<noteq> CHR '' ''" by (simp add: newline_char_def)
  then obtain t where "t \<in> set (map token r)" "newline_char \<in> set t"
    using in_set_join [OF n] by blast
  then show False using plain_no_sep(2) [OF token_plain [OF r]] by blast
qed

lemma read_rows:
  "\<forall>r \<in> set rs. readable r \<Longrightarrow>
    read_log (concat (map (\<lambda>r. str_join CHR '' '' (map token r) @ [newline_char]) rs)) = rs"
proof (induction rs)
  case Nil
  then show ?case by (simp add: read_log_def)
next
  case (Cons r rs)
  then show ?case
    using read_row [of r] str_split_append [OF row_no_newline [of r]] by (simp add: read_log_def)
qed

lemma render_fields: "render c l = str_join CHR '' '' (map token (fields c l)) @ [newline_char]"
  by (cases l) (simp_all add: swap_audit_line_def refused_line_def note_line_def mismatch_line_def line_head_def line_tail_def head_fields_def tail_fields_def token_def)

lemma entry_text_fields: "entry_text e = str_join CHR '' '' (map token (entry_fields e)) @ [newline_char]"
  by (cases e) (simp_all add: render_fields render_egress_def line_head_def line_tail_def head_fields_def
      tail_fields_def token_def)

lemma plain_words:
  "plain ''ts''" "plain ''host''" "plain ''swapped''" "plain ''refused''" "plain ''reason''" "plain ''ip''"
  "plain ''tenant''" "plain ''flow''" "plain ''authority''" "plain ''authority-mismatch''" "plain ''egress''"
  "plain (CHR ''h'' # CHR ''s'' # CHR ''u'' # CHR ''r'' # CHR ''r'' # CHR '':'' # v) = plain v"
  by (simp_all add: plain_def printable_def char_code_def)

lemma fields_readable: "plain (co_ts c) \<Longrightarrow> readable (fields c l)"
  by (cases l) (simp_all add: readable_def head_fields_def tail_fields_def plain_words)

lemma entry_readable: "plain (co_ts (entry_columns e)) \<Longrightarrow> readable (entry_fields e)"
proof (cases e)
  case (Line c l)
  then show "plain (co_ts (entry_columns e)) \<Longrightarrow> readable (entry_fields e)" by (simp add: fields_readable)
next
  case (Egress c host ip reason)
  then show "plain (co_ts (entry_columns e)) \<Longrightarrow> readable (entry_fields e)"
    by (simp add: readable_def head_fields_def tail_fields_def plain_words)
qed

text \<open>The column that says a credential left is written by a swap only.\<close>

lemma swapped_column:
  "(''swapped'', v) \<in> set (entry_fields e)
     \<longleftrightarrow> (\<exists>c host matched. e = Line c (Swapped host matched) \<and> v = sanitize_audit_field (Some matched))"
proof (cases e)
  case (Line c l)
  then show ?thesis by (cases l) (auto simp: head_fields_def tail_fields_def)
qed (simp add: head_fields_def tail_fields_def)

text \<open>
  C40: The audit log cannot be forged through its fields. Whatever bytes a client puts into a host, a
  path, a header or a placeholder, a reader that splits the log at newlines and spaces gets back
  exactly one row for each line the proxy wrote, in order, with exactly the columns of its writer
  and the values reduced to printable characters; in particular a row says \<open>swapped=\<close> only
  where a swap of that credential was recorded.
\<close>

theorem audit_log_round_trip:
  assumes "\<forall>e \<in> set es. plain (co_ts (entry_columns e))"
  shows "read_log (log_text es) = map entry_fields es
    \<and> (\<exists>r \<in> set (read_log (log_text es)). (''swapped'', v) \<in> set r)
        = (\<exists>c host matched. Line c (Swapped host matched) \<in> set es \<and> v = sanitize_audit_field (Some matched))"
proof -
  have "log_text es = concat (map (\<lambda>r. str_join CHR '' '' (map token r) @ [newline_char]) (map entry_fields es))"
    unfolding log_text_def map_map by (rule arg_cong [where f = concat], rule map_cong) (simp_all add: entry_text_fields)
  moreover have "\<forall>r \<in> set (map entry_fields es). readable r" using assms entry_readable by auto
  ultimately have rows: "read_log (log_text es) = map entry_fields es" by (simp only: read_rows)
  then show ?thesis unfolding rows using swapped_column [of v] by auto
qed

definition sample_columns :: columns where
  "sample_columns = \<lparr>co_ts = ''2026-01-02T03:04:05+00:00'', co_ip = None, co_authority = None, co_tenant = '' '',
     co_flow = Some ''f1''\<rparr>"

definition forging_host :: string where
  "forging_host = ''evil.example'' @ [newline_char] @ ''ts=x swapped=hsurr:gh''"

lemma audit_log_round_trip_witness:
  "read_log (log_text [Line sample_columns (Refused_Swap forging_host ''gh'' ''unbound-host'')])
     = [[(''ts'', ''2026-01-02T03:04:05+00:00''), (''host'', ''evil.examplets=xswapped=hsurr:gh''), (''refused'', ''hsurr:gh''),
         (''reason'', ''unbound-host''), (''ip'', ''-''), (''tenant'', ''-''), (''flow'', ''f1'')]]"
proof -
  let ?e = "Line sample_columns (Refused_Swap forging_host ''gh'' ''unbound-host'')"
  have "plain (co_ts sample_columns)" by code_simp
  then have "read_log (log_text [?e]) = [entry_fields ?e]" using audit_log_round_trip [of "[?e]"] by simp
  moreover have "entry_fields ?e = [(''ts'', ''2026-01-02T03:04:05+00:00''), (''host'', ''evil.examplets=xswapped=hsurr:gh''),
      (''refused'', ''hsurr:gh''), (''reason'', ''unbound-host''), (''ip'', ''-''), (''tenant'', ''-''), (''flow'', ''f1'')]"
    by code_simp
  ultimately show ?thesis by simp
qed

end
