(* ===== verification/Swap_Safety.thy ===== *)
theory Swap_Safety
  imports Swap_Text Swap_Filing_Safety
begin

section \<open>What the substitution guarantees\<close>

text \<open>
  The relation between the state before and after any part of a hook, what a released value
  implies, and the accounting between released values and audit lines.
\<close>

subsection \<open>How a hook moves the state\<close>

definition now_of :: "surroundings \<Rightarrow> swap \<Rightarrow> int" where
  "now_of w s = w_now w (sw_tick s)"

definition disk_rows :: "grants_disk \<Rightarrow> grant_row option list" where
  "disk_rows d = (case gd_rows d of None \<Rightarrow> [] | Some rs \<Rightarrow> rs)"

text \<open>The grants the proxy holds, or those the file decodes to at some later moment.\<close>

definition grants_seen :: "surroundings \<Rightarrow> swap \<Rightarrow> grant_row option list \<Rightarrow> bool" where
  "grants_seen w s gs \<longleftrightarrow>
     gs = g_grants_cache (sw_gate s) \<or> (\<exists>i \<ge> sw_tick s. gs = disk_rows (w_disk w i))"

definition same_config :: "swap \<Rightarrow> swap \<Rightarrow> bool" where
  "same_config s s' \<longleftrightarrow>
     sw_secrets s' = sw_secrets s \<and> sw_smoke_seen s' = sw_smoke_seen s \<and> sw_poisoned s' = sw_poisoned s
     \<and> sw_hosts s' = sw_hosts s \<and> sw_stream_hosts s' = sw_stream_hosts s
     \<and> sw_cookie_names s' = sw_cookie_names s \<and> sw_startup_checked s' = sw_startup_checked s
     \<and> g_registry (sw_gate s') = g_registry (sw_gate s)"

definition time_flows :: "surroundings \<Rightarrow> bool" where
  "time_flows w \<longleftrightarrow> (\<forall>i j. i \<le> j \<longrightarrow> w_now w i \<le> w_now w j)"

definition evolves :: "surroundings \<Rightarrow> int \<Rightarrow> swap \<Rightarrow> swap \<Rightarrow> bool" where
  "evolves w b s s' \<longleftrightarrow>
     same_config s s' \<and> sw_tick s \<le> sw_tick s'
     \<and> (time_flows w \<longrightarrow> cache_ok b (now_of w s) (sw_gate s) \<longrightarrow> cache_ok b (now_of w s') (sw_gate s'))
     \<and> grants_seen w s (g_grants_cache (sw_gate s')) \<and> prefix (sw_log s) (sw_log s')"

lemma evolves_refl [simp]: "evolves w b s s"
  by (simp add: evolves_def same_config_def grants_seen_def)

lemma grants_seen_later:
  "evolves w b s s' \<Longrightarrow> grants_seen w s' gs \<Longrightarrow> grants_seen w s gs"
  unfolding evolves_def grants_seen_def using order_trans by blast

lemma evolves_trans [trans]: "evolves w b s s' \<Longrightarrow> evolves w b s' s'' \<Longrightarrow> evolves w b s s''"
  using grants_seen_later [of w b s s' "g_grants_cache (sw_gate s'')"]
  unfolding evolves_def same_config_def by (auto intro: prefix_order.trans)

lemma cache_ok_wait: "cache_ok b t a \<Longrightarrow> t \<le> t' \<Longrightarrow> cache_ok b t' a"
  using past_verdict_mono order_trans [of b t t'] unfolding cache_ok_def by blast

lemma evolves_same:
  assumes "same_config s s'" and "sw_tick s' = sw_tick s \<or> sw_tick s' = Suc (sw_tick s)"
    and "sw_gate s' = sw_gate s" and "prefix (sw_log s) (sw_log s')"
  shows "evolves w b s s'"
proof -
  have "time_flows w \<Longrightarrow> now_of w s \<le> now_of w s'" using assms(2) by (auto simp: now_of_def time_flows_def)
  then show ?thesis
    using assms cache_ok_wait by (auto simp: evolves_def grants_seen_def)
qed

lemma evolves_audit_write: "evolves w b s0 s \<Longrightarrow> evolves w b s0 (snd (audit_write w l s))"
  by (erule evolves_trans, rule evolves_same) (auto simp: audit_write_def same_config_def tick_def)

lemma evolves_audit_refused: "evolves w b s0 s \<Longrightarrow> evolves w b s0 (audit_refused w host name reason s)"
  by (simp add: audit_refused_def evolves_audit_write)

lemma evolves_audit_note: "evolves w b s0 s \<Longrightarrow> evolves w b s0 (audit_note w host refused reason s)"
  by (simp add: audit_note_def evolves_audit_write)

lemma evolves_audit: "evolves w b s0 s \<Longrightarrow> evolves w b s0 (snd (audit w host matched s))"
  by (simp add: audit_def evolves_audit_write)

lemma evolves_audit_batch: "evolves w b s0 s \<Longrightarrow> evolves w b s0 (snd (audit_batch w ks s))"
  by (erule evolves_trans, rule evolves_same) (auto simp: audit_batch_def same_config_def tick_def)

lemma evolves_signal: "evolves w b s0 s \<Longrightarrow> evolves w b s0 (record_approval_signal aid st s)"
  by (erule evolves_trans, rule evolves_same) (auto simp: record_approval_signal_def same_config_def Let_def)

lemma evolves_signals: "evolves w b s0 s \<Longrightarrow>
    evolves w b s0 (fold (\<lambda>(aid, st). record_approval_signal aid st) sigs s)"
  by (induction sigs arbitrary: s) (auto simp: evolves_signal)

lemma evolves_approved: "evolves w b s0 s \<Longrightarrow> evolves w b s0 (record_approved aid s)"
  by (simp add: record_approved_def evolves_signal split: option.split)

lemma evolves_approvals: "evolves w b s0 s \<Longrightarrow>
    evolves w b s0 (fold (\<lambda>(_, _, aid). record_approved aid) ks s)"
  by (induction ks arbitrary: s) (auto simp: evolves_approved)

lemma evolves_tick: "evolves w b s0 s \<Longrightarrow> evolves w b s0 (tick s)"
  by (erule evolves_trans, rule evolves_same) (auto simp: same_config_def tick_def)

lemma evolves_filer: "evolves w b s0 s \<Longrightarrow> evolves w b s0 ((tick s)\<lparr>sw_filer := f\<rparr>)"
  by (erule evolves_trans, rule evolves_same) (auto simp: same_config_def tick_def)

lemma evolves_reset_signals: "evolves w b s0 s \<Longrightarrow> evolves w b s0 (s\<lparr>sw_signals := x\<rparr>)"
  by (erule evolves_trans, rule evolves_same) (auto simp: same_config_def)

lemma evolves_file_refusal: "evolves w b s0 s \<Longrightarrow> evolves w b s0 (snd (file_refusal w name host verb path r s))"
  unfolding file_refusal_def
  by (intro through_intros [where P = "evolves w b s0"])
    (auto simp: evolves_filer evolves_signals split: option.split prod.split)

lemma gate_call_frame:
  assumes "allows_request disk t name host verb path a = (v, a')"
  shows "g_registry a' = g_registry a"
    and "g_grants_cache a' = g_grants_cache a \<or> g_grants_cache a' = disk_rows disk"
    and "fst (read_grants disk a) = g_grants_cache a \<or> fst (read_grants disk a) = disk_rows disk"
proof -
  let ?a = "snd (read_grants disk a)"
  have "g_registry ?a = g_registry a \<and> (g_grants_cache ?a = g_grants_cache a \<or> g_grants_cache ?a = disk_rows disk)"
    by (auto simp: read_grants_def Let_def disk_rows_def split: option.split)
  moreover have "g_registry a' = g_registry ?a \<and> g_grants_cache a' = g_grants_cache ?a"
    using assms refl refl by (cases rule: allows_request_cases) simp_all
  ultimately show "g_registry a' = g_registry a"
    "g_grants_cache a' = g_grants_cache a \<or> g_grants_cache a' = disk_rows disk" by auto
  show "fst (read_grants disk a) = g_grants_cache a \<or> fst (read_grants disk a) = disk_rows disk"
    by (auto simp: read_grants_def Let_def disk_rows_def split: option.split)
qed

lemma evolves_ask_gate: "evolves w b s0 s \<Longrightarrow> evolves w b s0 (snd (ask_gate w name host verb path s))"
proof (erule evolves_trans)
  obtain v g where c: "allows_request (w_disk w (sw_tick s)) (w_now w (sw_tick s)) name host verb path (sw_gate s) = (v, g)"
    by force
  have "cache_ok b (w_now w (Suc (sw_tick s))) g"
    if "time_flows w" "cache_ok b (now_of w s) (sw_gate s)"
  proof (rule cache_ok_wait [OF cache_ok_call(1) [OF _ c]])
    show "cache_ok b (w_now w (sw_tick s)) (sw_gate s)" using that(2) by (simp add: now_of_def)
    show "w_now w (sw_tick s) \<le> w_now w (Suc (sw_tick s))" using that(1) by (simp add: time_flows_def)
  qed
  then show "evolves w b s (snd (ask_gate w name host verb path s))"
    using gate_call_frame [OF c] c
    by (auto simp: evolves_def same_config_def ask_gate_def tick_def now_of_def grants_seen_def)
qed

lemma evolves_entry_value: "evolves w b s0 s \<Longrightarrow> evolves w b s0 (snd (entry_value w host name entry val s))"
  by (auto simp: entry_value_def evolves_tick evolves_audit_refused split: secret.split option.split)

lemma through_verdict:
  assumes "\<And>g. v = Allowed g \<Longrightarrow> P (snd (f g))" and "\<And>r. v = Refused r \<Longrightarrow> P (snd (h r))"
  shows "P (snd (case v of Allowed g \<Rightarrow> f g | Refused r \<Rightarrow> h r))"
  using assms by (cases v) simp_all

lemma evolves_resolve: "evolves w b s0 s \<Longrightarrow> evolves w b s0 (snd (resolve w name entry host verb path loc s))"
  unfolding resolve_def Let_def
  by (intro through_intros [where P = "evolves w b s0"] through_verdict [where P = "evolves w b s0"]
      evolves_ask_gate evolves_file_refusal evolves_entry_value evolves_audit_refused)
    (simp_all add: evolves_audit_refused)

lemma through_pair:
  assumes "P (snd x)" and "\<And>v b. x = (v, b) \<Longrightarrow> P b \<Longrightarrow> P (snd (f v b))"
  shows "P (snd (case_prod f x))"
  using assms by (cases x) simp

lemma through_bool:
  "P (snd x) \<Longrightarrow> P (snd y) \<Longrightarrow> P (snd (case c of True \<Rightarrow> x | False \<Rightarrow> y))"
  by (cases c) simp_all

lemma evolves_swap_piece:
  "evolves w b s0 s \<Longrightarrow> evolves w b s0 (snd (swap_piece w md enc allow host verb path loc p s))"
proof (cases p)
  case (Ph name e tx)
  assume s: "evolves w b s0 s"
  obtain r s1 where r: "resolve w name (or_default e ''access_token'') host verb path loc s = (r, s1)"
    by force
  have s1: "evolves w b s0 s1" using evolves_resolve [OF s] r by (metis snd_conv)
  obtain ok s2 where a: "audit w host (canonical name e) s1 = (ok, s2)" by force
  have s2: "evolves w b s0 s2" using evolves_audit [OF s1] a by (metis snd_conv)
  show ?thesis
    using s s1 s2 a evolves_approved
    by (auto simp: swap_piece_def Ph r split: option.split swap_mode.split bool.split)
qed (simp add: swap_piece_def)

lemma evolves_swap_pieces:
  "evolves w b s0 s \<Longrightarrow> evolves w b s0 (snd (swap_pieces w md enc allow host verb path loc ps s))"
proof (induction ps arbitrary: s)
  case (Cons p ps)
  obtain r s1 where p: "swap_piece w md enc allow host verb path loc p s = (r, s1)" by force
  have s1: "evolves w b s0 s1" using evolves_swap_piece [OF Cons.prems] p by (metis snd_conv)
  obtain r' s2 where ps: "swap_pieces w md enc allow host verb path loc ps s1 = (r', s2)" by force
  have "evolves w b s0 s2" using Cons.IH [OF s1] ps by (metis snd_conv)
  then show ?case using s1 by (simp add: p ps split: option.split prod.split)
qed simp

lemma evolves_swap_json_text:
  assumes "evolves w b s0 s" shows "evolves w b s0 (snd (swap_json_text w host verb path loc text s))"
proof -
  let ?ps = "pieces Plain text"
  obtain r s1 where r: "swap_pieces w Probe json_string_escape None host verb path loc ?ps s = (r, s1)" by force
  have s1: "evolves w b s0 s1" using evolves_swap_pieces [OF assms] r by (metis snd_conv)
  obtain r' s2 where r': "swap_pieces w Sink json_string_escape None host verb path loc ?ps s1 = (r', s2)" by force
  have s2: "evolves w b s0 s2" using evolves_swap_pieces [OF s1] r' by (metis snd_conv)
  have refusal: "evolves w b s0 (json_refusal w host why s)" if "evolves w b s0 s" for why s
    using that by (simp add: json_refusal_def evolves_audit_note)
  have batch: "evolves w b s0 s3" if "audit_batch w ks s2 = (ok, s3)" for ks ok s3
    using evolves_audit_batch [OF s2] that by (metis snd_conv)
  show ?thesis
    unfolding swap_json_text_def Let_def r r' prod.case
    by (auto simp: s1 s2 refusal evolves_reset_signals evolves_approvals dest: batch
        split: option.split prod.split bool.split)
qed

subsection \<open>What a released value implies\<close>

definition stored_value :: "surroundings \<Rightarrow> swap \<Rightarrow> string \<Rightarrow> string \<Rightarrow> string \<Rightarrow> bool" where
  "stored_value w s name entry v \<longleftrightarrow>
     (case map_of (sw_secrets s) name of
        None \<Rightarrow> False
      | Some (Single x) \<Rightarrow>
          v = x \<and> (entry = ''access_token'' \<or> declared_entries (g_registry (sw_gate s)) name = [entry])
      | Some (Multi es) \<Rightarrow>
          if entry = ''totp'' then \<exists>seed t. map_of es ''totp'' = Some seed \<and> totp_code seed t = Some v
          else map_of es entry = Some v)"

text \<open>A full scan at an instant of the hook, on grants the proxy held or read, allows the request.\<close>

definition gate_open :: "surroundings \<Rightarrow> int \<Rightarrow> int \<Rightarrow> swap \<Rightarrow> string \<Rightarrow> string \<Rightarrow> string option \<Rightarrow> string option \<Rightarrow> bool" where
  "gate_open w b t s name host verb path \<longleftrightarrow>
     (\<exists>gs u g. grants_seen w s gs \<and> b \<le> u \<and> u \<le> t \<and>
        allows_request_uncached (g_registry (sw_gate s)) gs u name host (str_upper (or_default verb []))
          (normalize_path (or_default path ''/'')) = Allowed g)"

definition may_release ::
  "surroundings \<Rightarrow> int \<Rightarrow> int \<Rightarrow> swap \<Rightarrow> string \<Rightarrow> string \<Rightarrow> string \<Rightarrow> string option \<Rightarrow> string option
    \<Rightarrow> location option \<Rightarrow> string \<Rightarrow> bool"
where
  "may_release w b t s name entry host verb path loc v \<longleftrightarrow>
     \<not> sw_poisoned s \<and> (name = ''smoke-test'' \<or> \<not> host_is_smoke_only host s)
     \<and> stored_value w s name entry v \<and> gate_open w b t s name host verb path
     \<and> placement_allows (g_registry (sw_gate s)) name (Some entry) loc"

lemma same_config_simps:
  "same_config s s' \<Longrightarrow> sw_poisoned s' = sw_poisoned s"
  "same_config s s' \<Longrightarrow> host_is_smoke_only host s' = host_is_smoke_only host s"
  "same_config s s' \<Longrightarrow> stored_value w s' name entry v = stored_value w s name entry v"
  "same_config s s' \<Longrightarrow> g_registry (sw_gate s') = g_registry (sw_gate s)"
  by (auto simp: same_config_def host_is_smoke_only_def stored_value_def split: option.split secret.split)

lemma may_release_back:
  assumes "evolves w b s s'" and "may_release w b t s' name entry host verb path loc v" and "t \<le> t'"
  shows "may_release w b t' s name entry host verb path loc v"
proof -
  have sc: "same_config s s'" using assms(1) by (simp add: evolves_def)
  have "gate_open w b t' s name host verb path"
    using assms(2,3) grants_seen_later [OF assms(1)] same_config_simps(4) [OF sc]
    unfolding may_release_def gate_open_def using order_trans by metis
  then show ?thesis
    using assms(2) same_config_simps [OF sc] unfolding may_release_def by simp
qed

lemma resolve_releases:
  assumes flow: "time_flows w" and ok: "cache_ok b (now_of w s) (sw_gate s)"
    and run: "resolve w name entry host verb path loc s = (Some (Some v, aid), s')"
  shows "may_release w b (now_of w s) s name entry host verb path loc v"
proof -
  have np: "\<not> sw_poisoned s" and sm: "name = ''smoke-test'' \<or> \<not> host_is_smoke_only host s"
    using run by (auto simp: resolve_def split: if_splits)
  obtain val where val: "map_of (sw_secrets s) name = Some val"
    using run np sm by (auto simp: resolve_def split: option.splits if_splits)
  obtain vd s1 where ask: "ask_gate w name host verb path s = (vd, s1)" by force
  obtain g where g: "vd = Allowed g"
    using run np sm val ask by (cases vd) (auto simp: resolve_def split: option.splits prod.splits if_splits)
  have pl: "placement_allows (g_registry (sw_gate s1)) name (Some entry) loc"
    and ev: "\<exists>s2. entry_value w host name entry val s1 = (Some v, s2)"
    using run np sm val ask g by (auto simp: resolve_def Let_def split: prod.splits if_splits)
  have e1: "evolves w b s s1" using evolves_ask_gate [OF evolves_refl, of w b s name host verb path] ask by simp
  then have sc: "same_config s s1" by (simp add: evolves_def)
  have sv: "stored_value w s name entry v"
    using ev val same_config_simps(4) [OF sc]
    by (auto simp: entry_value_def stored_value_def split: secret.splits option.splits if_splits)
  obtain a where call: "allows_request (w_disk w (sw_tick s)) (w_now w (sw_tick s)) name host verb path (sw_gate s)
      = (vd, a)"
    using ask by (auto simp: ask_gate_def split: prod.splits)
  let ?gs = "fst (read_grants (w_disk w (sw_tick s)) (sw_gate s))"
  have "grants_seen w s ?gs"
    using gate_call_frame(3) [OF call] by (auto simp: grants_seen_def)
  then have "gate_open w b (now_of w s) s name host verb path"
    using cache_ok_call(2) [OF ok [unfolded now_of_def] call] g unfolding gate_open_def now_of_def by metis
  then show ?thesis
    using np sm sv pl same_config_simps(4) [OF sc] by (simp add: may_release_def)
qed

subsection \<open>The accounting of released values\<close>

fun is_swapped :: "audit_line \<Rightarrow> bool" where
  "is_swapped (Swapped h m) = True"
| "is_swapped _ = False"

definition trail :: "swap \<Rightarrow> audit_line list" where
  "trail s = filter is_swapped (sw_log s)"

text \<open>What became of each piece: \<open>Some v\<close> when its placeholder was replaced by the value \<open>v\<close>.\<close>

fun outcome_text :: "(string \<Rightarrow> string) \<Rightarrow> piece \<Rightarrow> string option \<Rightarrow> string" where
  "outcome_text enc (Lit c) r = [c]"
| "outcome_text enc (Ph n e t) r = (case r of None \<Rightarrow> t | Some v \<Rightarrow> enc v)"

fun released_line :: "string \<Rightarrow> piece \<Rightarrow> string option \<Rightarrow> audit_line list" where
  "released_line host (Ph n e t) (Some v) = [Swapped host (canonical n e)]"
| "released_line host _ _ = []"

fun outcome_ok ::
  "surroundings \<Rightarrow> int \<Rightarrow> int \<Rightarrow> swap \<Rightarrow> string list option \<Rightarrow> string \<Rightarrow> string option \<Rightarrow> string option
    \<Rightarrow> location option \<Rightarrow> piece \<Rightarrow> string option \<Rightarrow> bool"
where
  "outcome_ok w b t s allow host verb path loc p None = True"
| "outcome_ok w b t s allow host verb path loc (Lit c) (Some v) = False"
| "outcome_ok w b t s allow host verb path loc (Ph n e x) (Some v) =
     ((case allow of None \<Rightarrow> True | Some ns \<Rightarrow> n \<in> set ns)
      \<and> may_release w b t s n (or_default e ''access_token'') host verb path loc v)"

lemma trail_simps [simp]:
  "trail (tick s) = trail s" "trail (s\<lparr>sw_gate := g\<rparr>) = trail s" "trail (s\<lparr>sw_filer := f\<rparr>) = trail s"
  "trail (s\<lparr>sw_signals := x\<rparr>) = trail s" "trail (record_approval_signal aid st s) = trail s"
  "trail (audit_refused w host name reason s) = trail s" "trail (audit_note w host name reason s) = trail s"
  by (auto simp: trail_def tick_def record_approval_signal_def Let_def audit_refused_def audit_note_def
      audit_write_def)

lemma trail_approved [simp]: "trail (record_approved aid s) = trail s"
  by (simp add: record_approved_def split: option.split)

lemma trail_signals [simp]: "trail (fold (\<lambda>(aid, st). record_approval_signal aid st) sigs s) = trail s"
  by (induction sigs arbitrary: s) (auto simp: split_def)

lemma trail_approvals [simp]: "trail (fold (\<lambda>(_, _, aid). record_approved aid) ks s) = trail s"
  by (induction ks arbitrary: s) (auto simp: split_def)

lemma trail_ask_gate [simp]: "trail (snd (ask_gate w name host verb path s)) = trail s"
  by (simp add: ask_gate_def case_prod_beta)

lemma trail_file_refusal [simp]: "trail (snd (file_refusal w name host verb path r s)) = trail s"
  by (auto simp: file_refusal_def split: option.split prod.split)

lemma trail_entry_value [simp]: "trail (snd (entry_value w host name entry val s)) = trail s"
  by (auto simp: entry_value_def split: secret.split option.split)

lemma trail_resolve: "trail (snd (resolve w name entry host verb path loc s)) = trail s"
  unfolding resolve_def Let_def
  by (intro through_intros [where P = "\<lambda>s'. trail s' = trail s"]
      through_verdict [where P = "\<lambda>s'. trail s' = trail s"])
    (auto dest: arg_cong [where f = "\<lambda>x. trail (snd x)"])

lemma swap_piece_accounted:
  assumes flow: "time_flows w" and ok: "cache_ok b (now_of w s) (sw_gate s)"
    and run: "swap_piece w md enc allow host verb path loc p s = (Some (t, ks), s')"
  shows "\<exists>r. t = outcome_text enc p r \<and> outcome_ok w b (now_of w s) s allow host verb path loc p r
    \<and> trail s' = trail s @ (if md = Inline then released_line host p r else [])
    \<and> (md = Sink \<longrightarrow> map sunk_line ks = released_line host p r)"
proof (cases p)
  case (Lit c)
  then show ?thesis using run by (intro exI [of _ None]) (simp add: swap_piece_def)
next
  case (Ph n e x)
  let ?entry = "or_default e ''access_token''"
  show ?thesis
  proof (cases "case allow of None \<Rightarrow> False | Some ns \<Rightarrow> n \<notin> set ns")
    case True
    then show ?thesis using run Ph by (intro exI [of _ None]) (simp add: swap_piece_def)
  next
    case allowed: False
    obtain r s1 where res: "resolve w n ?entry host verb path loc s = (r, s1)" by force
    have tr: "trail s1 = trail s" using trail_resolve [of w n ?entry host verb path loc s] res by simp
    obtain v aid where r: "r = Some (v, aid)"
      using run Ph allowed res by (cases r) (auto simp: swap_piece_def)
    show ?thesis
    proof (cases v)
      case None
      then show ?thesis using run Ph allowed res r tr
        by (intro exI [of _ None]) (simp add: swap_piece_def)
    next
      case (Some val)
      have may: "outcome_ok w b (now_of w s) s allow host verb path loc p (Some val)"
        using resolve_releases [OF flow ok] res r Some allowed Ph by (auto split: option.splits)
      obtain wrote s2 where a: "audit w host (canonical n e) s1 = (wrote, s2)" by force
      have tr2: "trail s2 = trail s @ (if wrote then [Swapped host (canonical n e)] else [])"
        using a tr by (auto simp: audit_def audit_write_def trail_def tick_def split: if_splits)
      show ?thesis
      proof (cases "md = Inline \<and> \<not> wrote")
        case True
        then show ?thesis using run Ph allowed res r Some a tr2
          by (intro exI [of _ None]) (simp add: swap_piece_def)
      next
        case False
        then show ?thesis using run Ph allowed res r Some a tr tr2 may
          by (intro exI [of _ "Some val"]) (auto simp: swap_piece_def sunk_line_def split: swap_mode.splits)
      qed
    qed
  qed
qed

text \<open>The pieces of a text with what became of them.\<close>

definition accounted ::
  "surroundings \<Rightarrow> int \<Rightarrow> int \<Rightarrow> swap \<Rightarrow> (string \<Rightarrow> string) \<Rightarrow> string list option \<Rightarrow> string \<Rightarrow> string option
    \<Rightarrow> string option \<Rightarrow> location option \<Rightarrow> piece list \<Rightarrow> string option list \<Rightarrow> string \<Rightarrow> audit_line list \<Rightarrow> bool"
where
  "accounted w b t s enc allow host verb path loc ps rs text lines \<longleftrightarrow>
     length rs = length ps
     \<and> (\<forall>(p, r) \<in> set (zip ps rs). outcome_ok w b t s allow host verb path loc p r)
     \<and> text = concat (map2 (outcome_text enc) ps rs)
     \<and> lines = concat (map2 (released_line host) ps rs)"

lemma outcome_ok_back:
  assumes "evolves w b s s'" and "outcome_ok w b t s' allow host verb path loc p r" and "t \<le> t'"
  shows "outcome_ok w b t' s allow host verb path loc p r"
  using assms may_release_back [OF assms(1) _ assms(3)]
  by (cases "(w, b, t', s, allow, host, verb, path, loc, p, r)" rule: outcome_ok.cases) auto

lemma accounted_Cons:
  assumes "outcome_ok w b t s allow host verb path loc p r"
    and "accounted w b t s enc allow host verb path loc ps rs text lines"
  shows "accounted w b t s enc allow host verb path loc (p # ps) (r # rs)
    (outcome_text enc p r @ text) (released_line host p r @ lines)"
  using assms by (auto simp: accounted_def)

lemma accounted_back:
  assumes "evolves w b s s'" and "accounted w b t s' enc allow host verb path loc ps rs text lines" and "t \<le> t'"
  shows "accounted w b t' s enc allow host verb path loc ps rs text lines"
  using assms(2) outcome_ok_back [OF assms(1) _ assms(3)] unfolding accounted_def by blast

lemma evolves_now: "time_flows w \<Longrightarrow> evolves w b s s' \<Longrightarrow> now_of w s \<le> now_of w s'"
  by (simp add: time_flows_def evolves_def now_of_def)

lemma evolves_cache_ok:
  "time_flows w \<Longrightarrow> evolves w b s s' \<Longrightarrow> cache_ok b (now_of w s) (sw_gate s) \<Longrightarrow> cache_ok b (now_of w s') (sw_gate s')"
  by (simp add: evolves_def)

lemma swap_pieces_accounted:
  assumes flow: "time_flows w"
  shows "cache_ok b (now_of w s) (sw_gate s) \<Longrightarrow>
    swap_pieces w md enc allow host verb path loc ps s = (Some (t, ks), s') \<Longrightarrow>
    \<exists>rs lines. accounted w b (now_of w s') s enc allow host verb path loc ps rs t lines
      \<and> trail s' = trail s @ (if md = Inline then lines else [])
      \<and> (md = Sink \<longrightarrow> map sunk_line ks = lines)"
proof (induction ps arbitrary: s t ks)
  case Nil
  then show ?case by (intro exI [of _ "[]"]) (simp add: accounted_def)
next
  case (Cons p ps)
  obtain t1 k1 s1 where h: "swap_piece w md enc allow host verb path loc p s = (Some (t1, k1), s1)"
    using Cons.prems(2) by (auto split: option.splits prod.splits)
  obtain t2 k2 where tl: "swap_pieces w md enc allow host verb path loc ps s1 = (Some (t2, k2), s')"
    and eq: "t = t1 @ t2" "ks = k1 @ k2"
    using Cons.prems(2) h by (auto split: option.splits prod.splits)
  have e1: "evolves w b s s1"
    using evolves_swap_piece [OF evolves_refl, of w b s md enc allow host verb path loc p] h by simp
  have e2: "evolves w b s1 s'"
    using evolves_swap_pieces [OF evolves_refl, of w b s1 md enc allow host verb path loc ps] tl by simp
  obtain r where r: "t1 = outcome_text enc p r" "outcome_ok w b (now_of w s) s allow host verb path loc p r"
      "trail s1 = trail s @ (if md = Inline then released_line host p r else [])"
      "md = Sink \<longrightarrow> map sunk_line k1 = released_line host p r"
    using swap_piece_accounted [OF flow Cons.prems(1) h] by blast
  obtain rs lines where rs: "accounted w b (now_of w s') s1 enc allow host verb path loc ps rs t2 lines"
      "trail s' = trail s1 @ (if md = Inline then lines else [])" "md = Sink \<longrightarrow> map sunk_line k2 = lines"
    using Cons.IH [OF evolves_cache_ok [OF flow e1 Cons.prems(1)] tl] by blast
  have "now_of w s \<le> now_of w s'" using evolves_now [OF flow evolves_trans [OF e1 e2]] .
  then have "accounted w b (now_of w s') s enc allow host verb path loc (p # ps) (r # rs) t
      (released_line host p r @ lines)"
    unfolding eq(1) r(1)
    using outcome_ok_back [OF evolves_refl r(2)] accounted_back [OF e1 rs(1) order_refl] by (intro accounted_Cons)
  then show ?case using r rs eq by (intro exI [of _ "r # rs"] exI [of _ "released_line host p r @ lines"]) auto
qed



subsection \<open>An example\<close>

definition sample_swap :: swap where
  "sample_swap =
     \<lparr>sw_secrets = [(''gh'', Single ''s3cret'')], sw_hosts = [''api.github.com''], sw_stream_hosts = [],
      sw_smoke_seen = [], sw_poisoned = False, sw_startup_checked = True, sw_cookie_names = [],
      sw_gate = load_registry [(''gh'', Some \<lparr>sp_hosts = Some [''api.github.com''], sp_methods = None,
        sp_paths = None, sp_entries = []\<rparr>)] init_gate,
      sw_filer = init_filer empty_approvals, sw_signals = Some [], sw_log = [], sw_tick = 0\<rparr>"

definition sample_surroundings :: surroundings where
  "sample_surroundings =
     \<lparr>w_now = \<lambda>_. 0, w_disk = \<lambda>_. \<lparr>gd_mtime = None, gd_rows = None\<rparr>, w_log_ok = \<lambda>_. True,
      w_flushed = \<lambda>_. 0, w_filing = \<lambda>_. idle_env, w_json_ok = \<lambda>_. True,
      w_approvals = True, w_inference = False\<rparr>"

definition sample_text :: string where "sample_text = ''k=hsurr:gh;''"

lemma sample_flow: "time_flows sample_surroundings"
  by (simp add: time_flows_def sample_surroundings_def)

lemma sample_cache_ok: "cache_ok 0 (now_of sample_surroundings sample_swap) (sw_gate sample_swap)"
  by (simp add: cache_ok_def now_of_def sample_surroundings_def sample_swap_def load_registry_def init_gate_def)

abbreviation sample_run :: "string option \<times> swap" where
  "sample_run \<equiv> swap_text sample_surroundings None ''api.github.com'' (Some ''GET'') (Some ''/x'') (Some In_Body)
     sample_text sample_swap"

lemma sample_released: "fst sample_run = Some ''k=s3cret;''" "trail (snd sample_run) = [Swapped ''api.github.com'' ''hsurr:gh'']"
  by code_simp+


abbreviation sample_json_run :: "string option \<times> swap" where
  "sample_json_run \<equiv> swap_json_text sample_surroundings ''api.github.com'' (Some ''GET'') (Some ''/x'') (Some In_Body)
     sample_text sample_swap"

lemma sample_json_released: "fst sample_json_run = Some ''k=s3cret;''"
  by code_simp


end
