(* ===== verification/Swap_Scrub.thy ===== *)
theory Swap_Scrub
  imports Swap_Text
begin

section \<open>Secret values in a text (proxy/swap_addon.py)\<close>

text \<open>
  The values to scrub and their replacements, the scrubber of one text, the detection of values in a
  text at every decoding, and the target of a redirect or refresh. A digit is an ASCII digit, and
  the length of a value counts code points.
\<close>

subsection \<open>The replacements\<close>

text \<open>A value, its placeholder, and whether it is replaced as a whole token only.\<close>

type_synonym triple = "string \<times> string \<times> bool"

definition char_count :: "string \<Rightarrow> nat" where
  "char_count s = length (filter (\<lambda>c. char_code c < 128 \<or> 192 \<le> char_code c) s)"

definition min_scrub_len :: nat where "min_scrub_len = 8"

definition scrub_opted_out :: "registry \<Rightarrow> string \<Rightarrow> string option \<Rightarrow> bool" where
  "scrub_opted_out reg name entry =
     (case reg_spec reg name of
        None \<Rightarrow> False
      | Some s \<Rightarrow>
          (case map_of (sp_entries s) (case entry of None \<Rightarrow> ''access_token'' | Some e \<Rightarrow> e) of
             Some (Entry _ out) \<Rightarrow> out
           | _ \<Rightarrow> False))"

definition scrubbable_entry :: "registry \<Rightarrow> string \<Rightarrow> string option \<Rightarrow> string \<Rightarrow> bool" where
  "scrubbable_entry reg name entry v =
     (\<not> (v = [] \<or> char_count v < min_scrub_len) \<and> \<not> scrub_opted_out reg name entry)"

text \<open>The triples of one stored value: the value, and its bare rendering.\<close>

definition value_triples :: "registry \<Rightarrow> string \<Rightarrow> string option \<Rightarrow> string \<Rightarrow> triple list" where
  "value_triples reg name entry v =
     (let ph = canonical name entry; bare = str_strip v in
      if \<not> scrubbable_entry reg name entry v then []
      else (v, ph, False)
        # (if bare \<noteq> v \<and> scrubbable_entry reg name entry bare then [(bare, ph, False)] else []))"

definition totp_triples :: "string \<Rightarrow> string \<Rightarrow> int \<Rightarrow> triple list" where
  "totp_triples name seed now =
     List.map_filter (\<lambda>d. map_option (\<lambda>code. (code, canonical name (Some ''totp''), True))
         (totp_code seed (now + seconds d))) [-30, 0, 30]"

definition credential_triples :: "registry \<Rightarrow> int \<Rightarrow> string \<times> secret \<Rightarrow> triple list" where
  "credential_triples reg now = (\<lambda>(name, val).
     if name = ''smoke-test'' then []
     else case val of
       Single v \<Rightarrow> value_triples reg name None v
     | Multi es \<Rightarrow>
         concat (map (\<lambda>(e, v). if e = ''totp'' then totp_triples name v now
                               else value_triples reg name (Some e) v) es))"

text \<open>\<open>_secret_replacements\<close>: longest first, in a stable order.\<close>

definition secret_replacements :: "registry \<Rightarrow> (string \<times> secret) list \<Rightarrow> int \<Rightarrow> triple list" where
  "secret_replacements reg secrets now =
     sort_key (\<lambda>(v, _, _). - int (char_count v)) (concat (map (credential_triples reg now) secrets))"

subsection \<open>Scrubbing a text\<close>

text \<open>\<open>s.replace(v, r)\<close> for a value that is not empty.\<close>

function replace_all :: "string \<Rightarrow> string \<Rightarrow> string \<Rightarrow> string" where
  "replace_all v r [] = []"
| "replace_all v r (c # s) =
     (if v \<noteq> [] \<and> prefix v (c # s) then r @ replace_all v r (drop (length v) (c # s))
      else c # replace_all v r s)"
  by pat_completeness auto
termination
  by (relation "measure (\<lambda>(v, r, s). length s)") (auto simp: length_greater_0_conv [symmetric] simp del: length_greater_0_conv)

text \<open>
  \<open>re.sub\<close> of the value where no digit stands before or behind it; the flag says whether the
  character before is a digit.
\<close>

definition starts_with_digit :: "string \<Rightarrow> bool" where
  "starts_with_digit s = (case s of [] \<Rightarrow> False | c # _ \<Rightarrow> is_digit c)"

definition token_here :: "string \<Rightarrow> bool \<Rightarrow> string \<Rightarrow> bool" where
  "token_here v behind s =
     (\<not> behind \<and> v \<noteq> [] \<and> prefix v s \<and> \<not> starts_with_digit (drop (length v) s))"

function replace_token :: "string \<Rightarrow> string \<Rightarrow> bool \<Rightarrow> string \<Rightarrow> string" where
  "replace_token v r behind [] = []"
| "replace_token v r behind (c # s) =
     (if token_here v behind (c # s)
      then r @ replace_token v r (is_digit (last v)) (drop (length v) (c # s))
      else c # replace_token v r (is_digit c) s)"
  by pat_completeness auto
termination
  by (relation "measure (\<lambda>(v, r, b, s). length s)")
    (auto simp: token_here_def length_greater_0_conv [symmetric] simp del: length_greater_0_conv)

definition apply_triple :: "triple \<Rightarrow> string \<Rightarrow> string" where
  "apply_triple = (\<lambda>(v, ph, whole) s. if whole then replace_token v ph False s else replace_all v ph s)"

text \<open>\<open>_scrub_text_value\<close>.\<close>

definition scrub_text :: "triple list \<Rightarrow> string \<Rightarrow> string" where
  "scrub_text ts s = fold apply_triple ts s"

subsection \<open>Detection\<close>

text \<open>The first occurrence of each, in order.\<close>

definition dedup :: "'a list \<Rightarrow> 'a list" where
  "dedup xs = rev (remdups (rev xs))"

definition matched_names :: "triple list \<Rightarrow> string \<Rightarrow> string list" where
  "matched_names ts s =
     (if s = [] then []
      else dedup (map (\<lambda>(v, ph, w). ph) (filter (\<lambda>t. scrub_text [t] s \<noteq> s) ts)))"

text \<open>The texts the loop of \<open>_decode_stage_names\<close> looks at, before and after form decoding.\<close>

function decode_stages :: "string list \<Rightarrow> string \<Rightarrow> string list" where
  "decode_stages seen stage =
     (if stage \<in> set seen then [] else stage # decode_stages (stage # seen) (unquote stage))"
  by pat_completeness auto
termination
proof (relation "measures [\<lambda>(seen, s). pcts s, \<lambda>(seen, s). length s, \<lambda>(seen, s). if s \<in> set seen then 0 else 1]")
  fix seen stage assume "stage \<notin> set (seen :: string list)"
  then show "((stage # seen, unquote stage), (seen, stage))
      \<in> measures [\<lambda>(seen, s). pcts s, \<lambda>(seen, s). length s, \<lambda>(seen, s). if s \<in> set seen then 0 else 1]"
    using unquote_cases [of stage] by (auto simp: shrinks_def)
qed simp

declare decode_stages.simps [simp del]

definition decode_stage_names :: "triple list \<Rightarrow> string \<Rightarrow> string list" where
  "decode_stage_names ts s =
     dedup (concat (map (\<lambda>st. matched_names ts st @ matched_names ts (unquote_plus st)) (decode_stages [] s)))"

definition carries_secret :: "triple list \<Rightarrow> string \<Rightarrow> bool" where
  "carries_secret ts location = (decode_stage_names ts location \<noteq> [])"

text \<open>\<open>_audit_target_host\<close>: a lower-cased value is redacted as a whole.\<close>

definition contains :: "string \<Rightarrow> string \<Rightarrow> bool" where
  "contains needle s = list_ex (\<lambda>i. prefix needle (drop i s)) [0..<Suc (length s)]"

definition audit_target_host :: "triple list \<Rightarrow> string \<Rightarrow> string" where
  "audit_target_host ts target =
     (if scrub_text ts target \<noteq> target then scrub_text ts target
      else if list_ex (\<lambda>(v, _, _). contains (str_lower v) (str_lower target)) ts then ''secret-in-host-redacted''
      else target)"

text \<open>Framing headers are neither scrubbed nor scanned.\<close>

definition unscrubbed_headers :: "string list" where
  "unscrubbed_headers = [''content-length'', ''transfer-encoding'']"

subsection \<open>The target of a navigation\<close>

text \<open>\<open>urlsplit\<close>: the lower-cased scheme, and the host name of the network location.\<close>

definition clean_url :: "string \<Rightarrow> string" where
  "clean_url raw = filter (\<lambda>c. char_code c \<notin> {9, 10, 13}) (dropWhile (\<lambda>c. char_code c \<le> 32) raw)"

definition has_scheme :: "string \<Rightarrow> bool" where
  "has_scheme url =
     (CHR '':'' \<in> set url \<and> is_alpha_ascii (hd url) \<and> list_all scheme_char (before_char CHR '':'' url))"

definition netloc_of :: "string \<Rightarrow> string" where
  "netloc_of rest =
     (if prefix ''//'' rest
      then takeWhile (\<lambda>c. \<not> (c = CHR ''/'' \<or> c = CHR ''?'' \<or> c = CHR ''#'')) (drop 2 rest) else [])"

definition after_last_at :: "string \<Rightarrow> string" where
  "after_last_at loc = rev (takeWhile (\<lambda>c. c \<noteq> CHR ''@'') (rev loc))"

definition lower_before_zone :: "string \<Rightarrow> string" where
  "lower_before_zone h = str_lower (before_char CHR ''%'' h) @ dropWhile (\<lambda>c. c \<noteq> CHR ''%'') h"

definition hostname_of :: "string \<Rightarrow> string option" where
  "hostname_of loc =
     (let info = after_last_at loc;
          h = (if CHR ''['' \<in> set info
               then before_char CHR '']'' (tl (dropWhile (\<lambda>c. c \<noteq> CHR ''['') info))
               else before_char CHR '':'' info)
      in if h = [] then None else Some (lower_before_zone h))"

definition special_schemes :: "string list" where
  "special_schemes = [''http'', ''https'', ''ws'', ''wss'', ''ftp'', ''file'']"

text \<open>
  The rewriting before \<open>urlsplit\<close>: backslashes, and the slashes of an authority.
\<close>

definition browser_slashes :: "string \<Rightarrow> string" where
  "browser_slashes location =
     (let loc = filter (\<lambda>c. char_code c \<notin> {9, 10, 13}) location;
          m = has_scheme loc;
          scheme = (if m then str_lower (before_char CHR '':'' loc) else [])
      in if scheme \<in> set special_schemes \<or> scheme = [] then
           (let loc = map (\<lambda>c. if c = CHR 0x5C then CHR ''/'' else c) loc;
                behind = tl (dropWhile (\<lambda>c. c \<noteq> CHR '':'') loc)
            in if m \<and> \<not> prefix ''//'' behind
               then before_char CHR '':'' loc @ ''://'' @ lstrip_char CHR ''/'' behind
               else if \<not> m \<and> prefix ''//'' loc then ''//'' @ lstrip_char CHR ''/'' loc
               else loc)
         else loc)"

text \<open>\<open>_redirect_target_host\<close>.\<close>

definition redirect_target_host :: "string \<Rightarrow> string option" where
  "redirect_target_host location =
     (let url = clean_url (browser_slashes location);
          loc = netloc_of (strip_scheme url)
      in if prefix ''//'' (strip_scheme url) \<and> \<not> netloc_ok loc then None
         else case hostname_of loc of
           Some h \<Rightarrow> Some h
         | None \<Rightarrow> if has_scheme url then Some [] else None)"

text \<open>\<open>_nav_leak_target\<close>.\<close>

definition leaks_to :: "string list \<Rightarrow> triple list \<Rightarrow> string \<Rightarrow> string option" where
  "leaks_to hosts ts url =
     (case redirect_target_host url of
        None \<Rightarrow> None
      | Some target \<Rightarrow>
          if \<not> host_in_list target hosts \<and> carries_secret ts url then Some target else None)"

definition nav_leak_target :: "string list \<Rightarrow> triple list \<Rightarrow> string list \<Rightarrow> string option" where
  "nav_leak_target hosts ts urls = first_some (leaks_to hosts ts) urls"

subsection \<open>Refresh targets\<close>

text \<open>A search: the text before the leftmost match, and what the matcher returns there.\<close>

fun search :: "(string \<Rightarrow> 'a option) \<Rightarrow> string \<Rightarrow> (string \<times> 'a) option" where
  "search m [] = map_option (Pair []) (m [])"
| "search m (c # s) =
     (case m (c # s) of
        Some x \<Rightarrow> Some ([], x)
      | None \<Rightarrow> map_option (\<lambda>(p, x). (c # p, x)) (search m s))"

text \<open>A key in any case, white space, an equals sign and white space: what it took, and the rest.\<close>

definition key_equals :: "string \<Rightarrow> string \<Rightarrow> (string \<times> string) option" where
  "key_equals key s =
     (if str_lower (take (length key) s) \<noteq> key then None
      else case dropWhile is_space (drop (length key) s) of
        [] \<Rightarrow> None
      | c # r \<Rightarrow>
          if c = CHR ''='' then
            (let rest = dropWhile is_space r in Some (take (length s - length rest) s, rest))
          else None)"

text \<open>A quoted text: the opening quote, the text, and the rest from the closing quote on.\<close>

definition quoted :: "char \<Rightarrow> string \<Rightarrow> (string \<times> string) option" where
  "quoted q s =
     (case s of
        [] \<Rightarrow> None
      | c # r \<Rightarrow> if c = q \<and> q \<in> set r then Some (before_char q r, dropWhile (\<lambda>x. x \<noteq> q) r) else None)"

text \<open>
  A capture: the text before the group, the group and the text behind it.
\<close>

type_synonym capture = "string \<times> string \<times> string"

definition url_quoted :: "char \<Rightarrow> string \<Rightarrow> capture option" where
  "url_quoted q s =
     (case key_equals ''url'' s of
        None \<Rightarrow> None
      | Some (k, rest) \<Rightarrow> map_option (\<lambda>(g, r). (k @ [q], g, r)) (quoted q rest))"

text \<open>
  The open form takes everything behind one optional quote. Where nothing would be left, the group
  is the last character the greedy parts give back.
\<close>

definition url_open :: "string \<Rightarrow> capture option" where
  "url_open s =
     (case key_equals ''url'' s of
        None \<Rightarrow> None
      | Some (k, []) \<Rightarrow> if last k = CHR ''='' then None else Some (butlast k, [last k], [])
      | Some (k, c # r) \<Rightarrow>
          if (c = CHR 0x22 \<or> c = CHR 0x27) \<and> r \<noteq> [] then Some (k @ [c], r, []) else Some (k, c # r, []))"

definition join_capture :: "string \<times> capture \<Rightarrow> capture" where
  "join_capture = (\<lambda>(p, (k, g, r)). (p @ k, g, r))"

definition refresh_url_match :: "string \<Rightarrow> capture option" where
  "refresh_url_match v =
     map_option join_capture
       (case search (url_quoted CHR 0x22) v of
          Some m \<Rightarrow> Some m
        | None \<Rightarrow> (case search (url_quoted CHR 0x27) v of Some m \<Rightarrow> Some m | None \<Rightarrow> search url_open v))"

definition refresh_url :: "string \<Rightarrow> string option" where
  "refresh_url v =
     (case refresh_url_match v of
        None \<Rightarrow> None
      | Some (_, g, _) \<Rightarrow> if str_strip g = [] then None else Some (str_strip g))"

subsection \<open>Refresh tags in a page\<close>

text \<open>The rest of a tag behind its name: up to the first closing bracket outside of quotes.\<close>

function tag_rest :: "string \<Rightarrow> (string \<times> string) option" where
  "tag_rest [] = None"
| "tag_rest (c # s) =
     (if c = CHR ''>'' then Some ([c], s)
      else if c = CHR 0x22 \<or> c = CHR 0x27 then
        (if c \<in> set s then
           map_option (\<lambda>(t, r). (c # before_char c s @ c # t, r)) (tag_rest (tl (dropWhile (\<lambda>x. x \<noteq> c) s)))
         else None)
      else map_option (\<lambda>(t, r). (c # t, r)) (tag_rest s))"
  by pat_completeness auto
termination
  by (relation "measure length") (auto simp: less_Suc_eq_le intro: le_trans [OF diff_le_self length_dropWhile_le])

text \<open>The word boundary behind the name of the tag.\<close>

definition not_word_start :: "string \<Rightarrow> bool" where
  "not_word_start s = (case s of [] \<Rightarrow> True | c # _ \<Rightarrow> \<not> (is_alnum_ascii c \<or> c = CHR ''_''))"

definition meta_tag :: "string \<Rightarrow> (string \<times> string) option" where
  "meta_tag s =
     (if str_lower (take 5 s) = ''<meta'' \<and> not_word_start (drop 5 s)
      then map_option (\<lambda>(t, r). (take 5 s @ t, r)) (tag_rest (drop 5 s)) else None)"

definition is_refresh_value :: "string \<Rightarrow> bool" where
  "is_refresh_value s =
     (str_lower (take 9 s) = CHR 0x22 # ''refresh'' @ [CHR 0x22]
      \<or> str_lower (take 9 s) = CHR 0x27 # ''refresh'' @ [CHR 0x27]
      \<or> (str_lower (take 7 s) = ''refresh'' \<and>
         (case drop 7 s of [] \<Rightarrow> False | c # _ \<Rightarrow> is_space c \<or> c = CHR ''>'' \<or> c = CHR ''/'')))"

definition refresh_tag :: "string \<Rightarrow> bool" where
  "refresh_tag tag =
     (search (\<lambda>s. case key_equals ''http-equiv'' s of
                    None \<Rightarrow> None
                  | Some (_, rest) \<Rightarrow> if is_refresh_value rest then Some () else None) tag \<noteq> None)"

definition content_value :: "string \<Rightarrow> capture option" where
  "content_value s =
     (case key_equals ''content'' s of
        None \<Rightarrow> None
      | Some (k, rest) \<Rightarrow>
          (case quoted CHR 0x22 rest of
             Some (g, r) \<Rightarrow> Some (k @ [CHR 0x22], g, r)
           | None \<Rightarrow>
               (case quoted CHR 0x27 rest of
                  Some (g, r) \<Rightarrow> Some (k @ [CHR 0x27], g, r)
                | None \<Rightarrow>
                    let run = takeWhile (\<lambda>c. \<not> (is_space c \<or> c = CHR ''>'')) rest
                    in if run = [] then None else Some (k, run, drop (length run) rest))))"

text \<open>The target of a refresh tag, with the parts of the tag before and behind it.\<close>

definition tag_target :: "string \<Rightarrow> capture option" where
  "tag_target tag =
     (if \<not> refresh_tag tag then None
      else case map_option join_capture (search content_value tag) of
        None \<Rightarrow> None
      | Some (k, content, r) \<Rightarrow>
          (case refresh_url_match content of
             None \<Rightarrow> None
           | Some (k', g, r') \<Rightarrow> if str_strip g = [] then None else Some (k @ k', g, r' @ r)))"

definition meta_refresh_neutralized_url :: string where
  "meta_refresh_neutralized_url = ''hsurr:meta-refresh-secret-refused''"

text \<open>One tag: its text after the check, and the host it would have leaked to.\<close>

definition neutralize_tag :: "string list \<Rightarrow> triple list \<Rightarrow> string \<Rightarrow> string \<times> string list" where
  "neutralize_tag hosts ts tag =
     (case tag_target tag of
        None \<Rightarrow> (tag, [])
      | Some (k, url, r) \<Rightarrow>
          (case leaks_to hosts ts url of
             None \<Rightarrow> (tag, [])
           | Some target \<Rightarrow> (k @ meta_refresh_neutralized_url @ r, [audit_target_host ts target])))"

lemma tag_rest_suffix: "tag_rest s = Some (t, r) \<Longrightarrow> s = t @ r"
proof (induction s arbitrary: t r rule: tag_rest.induct)
  case (2 c s)
  have cut: "before_char c s @ c # tl (dropWhile (\<lambda>x. x \<noteq> c) s) = s" if "c \<in> set s"
  proof -
    have "dropWhile (\<lambda>x. x \<noteq> c) s \<noteq> []" and "hd (dropWhile (\<lambda>x. x \<noteq> c) s) = c"
      using that hd_dropWhile [of "\<lambda>x. x \<noteq> c" s] by auto
    then have "c # tl (dropWhile (\<lambda>x. x \<noteq> c) s) = dropWhile (\<lambda>x. x \<noteq> c) s" by (metis list.collapse)
    then show ?thesis by (simp add: before_char_def)
  qed
  show ?case
    using 2 cut by (fastforce split: if_splits)
qed simp

lemma meta_tag_suffix: "meta_tag s = Some (t, r) \<Longrightarrow> s = t @ r \<and> t \<noteq> []"
proof -
  assume "meta_tag s = Some (t, r)"
  then obtain u where u: "tag_rest (drop 5 s) = Some (u, r)" "t = take 5 s @ u" "str_lower (take 5 s) = ''<meta''"
    by (auto simp: meta_tag_def split: if_splits)
  then have "s = t @ r" using tag_rest_suffix [OF u(1)] append_take_drop_id [of 5 s] by simp
  moreover have "take 5 s \<noteq> []" using u(3) by (auto simp: str_lower_def)
  ultimately show ?thesis using u(2) by simp
qed

text \<open>\<open>_meta_refresh_neutralized\<close>: the text, and the refused targets.\<close>

function neutralize_meta :: "string list \<Rightarrow> triple list \<Rightarrow> string \<Rightarrow> string \<times> string list" where
  "neutralize_meta hosts ts [] = ([], [])"
| "neutralize_meta hosts ts (c # s) =
     (case meta_tag (c # s) of
        None \<Rightarrow> (let (t, k) = neutralize_meta hosts ts s in (c # t, k))
      | Some (tag, r) \<Rightarrow>
          (let (tag', k) = neutralize_tag hosts ts tag; (t, k') = neutralize_meta hosts ts r
           in (tag' @ t, k @ k')))"
  by pat_completeness auto
termination
proof (relation "measure (\<lambda>(h, ts, s). length s)")
  fix hosts ts c s x tag r
  assume "meta_tag (c # s) = Some x" "(tag, r) = x"
  then have "c # s = tag @ r" "tag \<noteq> []" using meta_tag_suffix by auto
  then have "length r < length (c # s)" by (metis append_eq_append_conv2 length_append less_add_same_cancel2 length_greater_0_conv)
  then show "((hosts, ts, r), (hosts, ts, c # s)) \<in> measure (\<lambda>(h, ts, s). length s)" by simp
qed auto

end
