(* ===== verification/Scrub_Safety.thy ===== *)
theory Scrub_Safety
  imports Swap_Scrub
begin

section \<open>What the scrubber and the detection guarantee\<close>

subsection \<open>Detection of a value\<close>

text \<open>A replacement that does not change the text found nothing to replace.\<close>

lemma replace_all_absent: "\<not> sublist v s \<Longrightarrow> replace_all v r s = s"
proof (induction v r s rule: replace_all.induct)
  case (2 v r c s)
  then have "\<not> prefix v (c # s)" "\<not> sublist v s" by (auto simp: sublist_Cons_right)
  then show ?case using 2(2) by simp
qed simp

lemma replace_all_length:
  "v \<noteq> [] \<Longrightarrow> \<exists>n. int (length (replace_all v r s)) = int (length s) + int n * (int (length r) - int (length v))
    \<and> (sublist v s \<longrightarrow> 0 < n)"
proof (induction v r s rule: replace_all.induct)
  case (2 v r c s)
  show ?case
  proof (cases "prefix v (c # s)")
    case True
    then obtain n where n: "int (length (replace_all v r (drop (length v) (c # s)))) =
        int (length (drop (length v) (c # s))) + int n * (int (length r) - int (length v))"
      using 2 by auto
    have "length v \<le> length (c # s)" using True prefix_length_le by blast
    then have "int (length (drop (length v) (c # s))) = int (length (c # s)) - int (length v)" by simp
    then have "int (length (replace_all v r (c # s))) =
        int (length (c # s)) + int (Suc n) * (int (length r) - int (length v))"
      using True 2(3) n by (simp add: algebra_simps)
    then show ?thesis by blast
  next
    case False
    then obtain n where "int (length (replace_all v r s)) = int (length s) + int n * (int (length r) - int (length v))"
      and "sublist v s \<longrightarrow> 0 < n" using 2 by auto
    then show ?thesis using False by (intro exI [of _ n]) (auto simp: sublist_Cons_right)
  qed
qed auto

lemma replace_all_same_length:
  assumes "v \<noteq> []" "r \<noteq> v" "length r = length v" "sublist v s" shows "replace_all v r s \<noteq> s"
  using assms
proof (induction v r s rule: replace_all.induct)
  case (2 v r c s)
  show ?case
  proof (cases "prefix v (c # s)")
    case True
    then obtain t where t: "c # s = v @ t" by (auto simp: prefix_def)
    have "replace_all v r (c # s) = r @ replace_all v r (drop (length v) (c # s))" using True 2(3) by simp
    then show ?thesis using t 2(4,5) by auto
  next
    case False
    then show ?thesis using 2 by (auto simp: sublist_Cons_right)
  qed
qed simp

lemma replace_all_changes:
  assumes "v \<noteq> []" "r \<noteq> v" "sublist v s" shows "replace_all v r s \<noteq> s"
proof (cases "length r = length v")
  case True
  then show ?thesis using replace_all_same_length assms by blast
next
  case False
  obtain n where n: "int (length (replace_all v r s)) = int (length s) + int n * (int (length r) - int (length v))"
    "0 < n" using replace_all_length [OF assms(1), of r s] assms(3) by blast
  then have "int (length (replace_all v r s)) \<noteq> int (length s)" using False by simp
  then show ?thesis by auto
qed

lemma set_dedup [simp]: "set (dedup xs) = set xs"
  by (simp add: dedup_def)

lemma distinct_dedup [simp]: "distinct (dedup xs)"
  by (simp add: dedup_def)

lemma dedup_Nil [simp]: "dedup xs = [] \<longleftrightarrow> xs = []"
  by (metis set_dedup set_empty)

lemma matched_names_Nil: "matched_names ts s = [] \<longleftrightarrow> s = [] \<or> (\<forall>t \<in> set ts. scrub_text [t] s = s)"
  by (auto simp: matched_names_def filter_empty_conv)

text \<open>A text without a match holds no value, and the scrubber leaves it alone.\<close>

lemma scrub_text_single: "scrub_text [t] s = apply_triple t s"
  by (simp add: scrub_text_def)

lemma apply_triple_Nil [simp]: "apply_triple t [] = []"
  by (auto simp: apply_triple_def split: prod.splits)

lemma unmatched_scrub: "matched_names ts s = [] \<Longrightarrow> scrub_text ts s = s"
proof -
  assume "matched_names ts s = []"
  then have "\<forall>t \<in> set ts. apply_triple t s = s" by (auto simp: matched_names_Nil scrub_text_single)
  then have "fold apply_triple ts s = s" by (induction ts) auto
  then show ?thesis by (simp add: scrub_text_def)
qed

lemma unmatched_absent:
  assumes "matched_names ts s = []" "(v, ph, False) \<in> set ts" "v \<noteq> []" "ph \<noteq> v"
  shows "\<not> sublist v s"
proof
  assume v: "sublist v s"
  then have "s \<noteq> []" using assms(3) by auto
  then have "scrub_text [(v, ph, False)] s = s" using assms(1,2) matched_names_Nil by blast
  then have "replace_all v ph s = s" by (simp add: scrub_text_def apply_triple_def)
  then show False using replace_all_changes [OF assms(3,4) v] by blast
qed

subsection \<open>Every decoding is looked at\<close>

text \<open>
  The loop ends at the first repetition; as decoding only shrinks a text, that is a fixpoint.
\<close>

lemma unquote_measure: "unquote s = s \<or> shrinks (unquote s) s"
  using unquote_cases by blast

lemma shrinks_trans: "shrinks a b \<Longrightarrow> shrinks b c \<Longrightarrow> shrinks a c"
  by (auto simp: shrinks_def)

lemma shrinks_irrefl: "\<not> shrinks a a"
  by (simp add: shrinks_def)

text \<open>Every stage seen before is strictly larger than the present one, or the present one is stable.\<close>

lemma decode_stages_all:
  assumes "\<forall>u \<in> set seen. shrinks s u \<or> unquote s = s"
  shows "(unquote ^^ k) s \<in> set (decode_stages seen s) \<union> set seen"
  using assms
proof (induction seen s arbitrary: k rule: decode_stages.induct)
  case (1 seen s)
  show ?case
  proof (cases "s \<in> set seen")
    case True
    then have "unquote s = s" using 1(2) shrinks_irrefl by blast
    then have "(unquote ^^ k) s = s" by (induction k) simp_all
    then show ?thesis using True by simp
  next
    case False
    have pre: "\<forall>u \<in> set (s # seen). shrinks (unquote s) u \<or> unquote (unquote s) = unquote s"
      using 1(2) unquote_measure [of s] shrinks_trans by (metis set_ConsD)
    show ?thesis
    proof (cases k)
      case 0
      then show ?thesis using False by (subst decode_stages.simps) simp
    next
      case (Suc j)
      have "(unquote ^^ j) (unquote s) \<in> set (decode_stages (s # seen) (unquote s)) \<union> set (s # seen)"
        by (rule 1(1) [OF False pre])
      then show ?thesis using False Suc
        by (subst decode_stages.simps) (auto simp: funpow_Suc_right simp del: funpow.simps)
    qed
  qed
qed

lemma decode_stage_names_Nil:
  assumes "decode_stage_names ts s = []"
  shows "matched_names ts ((unquote ^^ k) s) = []" "matched_names ts (unquote_plus ((unquote ^^ k) s)) = []"
proof -
  have "(unquote ^^ k) s \<in> set (decode_stages [] s)" using decode_stages_all [of "[]" s k] by simp
  then show "matched_names ts ((unquote ^^ k) s) = []" "matched_names ts (unquote_plus ((unquote ^^ k) s)) = []"
    using assms by (auto simp: decode_stage_names_def)
qed

subsection \<open>Where the characters of a scrubbed text come from\<close>

text \<open>
  The scrubber once more, on characters that carry their position in the original text; the
  characters it writes carry none.
\<close>

type_synonym traced = "(char \<times> nat option) list"

definition origins :: "string \<Rightarrow> traced" where
  "origins s = zip s (map Some [0..<length s])"

definition written :: "string \<Rightarrow> traced" where
  "written r = map (\<lambda>c. (c, None)) r"

definition kept :: "traced \<Rightarrow> bool" where
  "kept xs = list_all (\<lambda>(c, i). i \<noteq> None) xs"

function replace_all_tr :: "string \<Rightarrow> string \<Rightarrow> traced \<Rightarrow> traced" where
  "replace_all_tr v r [] = []"
| "replace_all_tr v r (x # xs) =
     (if v \<noteq> [] \<and> prefix v (map fst (x # xs)) then written r @ replace_all_tr v r (drop (length v) (x # xs))
      else x # replace_all_tr v r xs)"
  by pat_completeness auto
termination
  by (relation "measure (\<lambda>(v, r, s). length s)") (auto simp: length_greater_0_conv [symmetric] simp del: length_greater_0_conv)

function replace_token_tr :: "string \<Rightarrow> string \<Rightarrow> bool \<Rightarrow> traced \<Rightarrow> traced" where
  "replace_token_tr v r behind [] = []"
| "replace_token_tr v r behind (x # xs) =
     (if token_here v behind (map fst (x # xs))
      then written r @ replace_token_tr v r (is_digit (last v)) (drop (length v) (x # xs))
      else x # replace_token_tr v r (is_digit (fst x)) xs)"
  by pat_completeness auto
termination
  by (relation "measure (\<lambda>(v, r, b, s). length s)")
    (auto simp: token_here_def length_greater_0_conv [symmetric] simp del: length_greater_0_conv)

definition apply_triple_tr :: "triple \<Rightarrow> traced \<Rightarrow> traced" where
  "apply_triple_tr = (\<lambda>(v, ph, whole) s. if whole then replace_token_tr v ph False s else replace_all_tr v ph s)"

definition scrub_traced :: "triple list \<Rightarrow> traced \<Rightarrow> traced" where
  "scrub_traced ts xs = fold apply_triple_tr ts xs"

lemma fst_written [simp]: "map fst (written r) = r"
  by (simp add: written_def comp_def)

lemma fst_origins [simp]: "map fst (origins s) = s"
  by (simp add: origins_def)

lemma erase_replace_all: "map fst (replace_all_tr v r xs) = replace_all v r (map fst xs)"
  by (induction v r xs rule: replace_all_tr.induct) (auto simp: drop_Cons' drop_map)

lemma erase_replace_token: "map fst (replace_token_tr v r b xs) = replace_token v r b (map fst xs)"
  by (induction v r b xs rule: replace_token_tr.induct) (auto simp: drop_Cons' drop_map)

lemma erase_apply: "map fst (apply_triple_tr t xs) = apply_triple t (map fst xs)"
  by (auto simp: apply_triple_tr_def apply_triple_def erase_replace_all erase_replace_token split: prod.split)

lemma erase_scrub: "map fst (scrub_traced ts xs) = scrub_text ts (map fst xs)"
  unfolding scrub_traced_def scrub_text_def
  by (induction ts arbitrary: xs) (simp_all add: erase_apply)

text \<open>What a replacement does: it keeps stretches of the text and writes something between them.\<close>

inductive cuts :: "traced \<Rightarrow> traced \<Rightarrow> bool" where
  ended: "cuts [] []"
| keep: "cuts xs ys \<Longrightarrow> cuts (x # xs) (x # ys)"
| cut: "cuts xs ys \<Longrightarrow> r \<noteq> [] \<Longrightarrow> cuts (us @ xs) (written r @ ys)"

lemma cuts_replace_all: "r \<noteq> [] \<Longrightarrow> cuts xs (replace_all_tr v r xs)"
proof (induction v r xs rule: replace_all_tr.induct)
  case (2 v r x xs)
  show ?case
  proof (cases "v \<noteq> [] \<and> prefix v (map fst (x # xs))")
    case True
    then have "cuts (take (length v) (x # xs) @ drop (length v) (x # xs))
        (written r @ replace_all_tr v r (drop (length v) (x # xs)))"
      by (intro cuts.cut 2)
    then show ?thesis using True by (simp only: append_take_drop_id replace_all_tr.simps if_True simp_thms)
  next
    case False
    then have "cuts xs (replace_all_tr v r xs)" using 2 by blast
    then show ?thesis using False by (auto intro: cuts.keep)
  qed
qed (auto intro: cuts.ended)

lemma cuts_replace_token: "r \<noteq> [] \<Longrightarrow> cuts xs (replace_token_tr v r b xs)"
proof (induction v r b xs rule: replace_token_tr.induct)
  case (2 v r b x xs)
  show ?case
  proof (cases "token_here v b (map fst (x # xs))")
    case True
    then have "cuts (take (length v) (x # xs) @ drop (length v) (x # xs))
        (written r @ replace_token_tr v r (is_digit (last v)) (drop (length v) (x # xs)))"
      by (intro cuts.cut 2)
    then show ?thesis using True by (simp only: append_take_drop_id replace_token_tr.simps if_True)
  next
    case False
    then have "cuts xs (replace_token_tr v r (is_digit (fst x)) xs)" using 2 by blast
    then show ?thesis using False by (auto intro: cuts.keep)
  qed
qed (auto intro: cuts.ended)

lemma kept_written: "kept b \<Longrightarrow> sublist b (written r) \<Longrightarrow> b = []"
  by (cases b) (auto simp: kept_def written_def sublist_def map_eq_append_conv)

lemma kept_append [simp]: "kept (a @ b) \<longleftrightarrow> kept a \<and> kept b"
  by (simp add: kept_def)

lemma kept_after_written:
  assumes "sublist b (written r @ ys)" "kept b" shows "sublist b ys"
proof -
  from assms(1) consider "sublist b (written r)" | "sublist b ys"
    | b1 b2 where "b = b1 @ b2" "suffix b1 (written r)" "prefix b2 ys"
    by (auto simp: sublist_append)
  then show ?thesis
  proof cases
    case 3
    then have "b1 = []" using kept_written assms(2) suffix_imp_sublist by auto
    then show ?thesis using 3 prefix_imp_sublist by simp
  qed (use kept_written assms(2) in auto)
qed

text \<open>A stretch of kept characters was one before.\<close>

lemma cuts_kept_prefix: "cuts xs ys \<Longrightarrow> kept b \<Longrightarrow> prefix b ys \<Longrightarrow> prefix b xs"
proof (induction arbitrary: b rule: cuts.induct)
  case (keep xs ys x)
  then show ?case by (cases b) (auto simp: kept_def)
next
  case (cut xs ys r us)
  then have "b = []" by (cases b; cases r) (auto simp: kept_def written_def)
  then show ?case by simp
qed simp

lemma cuts_kept_run: "cuts xs ys \<Longrightarrow> kept b \<Longrightarrow> sublist b ys \<Longrightarrow> sublist b xs"
proof (induction arbitrary: b rule: cuts.induct)
  case (keep xs ys x)
  from keep(4) show ?case
    using keep(2) [OF keep(3)] cuts_kept_prefix [OF cuts.keep [OF keep(1)] keep(3), of x]
    by (metis sublist_Cons_right)
next
  case (cut xs ys r us)
  then have "sublist b ys" using kept_after_written by blast
  then show ?case using cut by (simp add: sublist_append)
qed simp

lemma no_kept_prefix:
  assumes "v \<noteq> []" "r \<noteq> []" "kept b" "prefix b (replace_all_tr v r xs)" shows "map fst b \<noteq> v"
proof
  assume b: "map fst b = v"
  have "prefix b xs" using cuts_kept_prefix [OF cuts_replace_all [OF assms(2)] assms(3,4)] .
  then have pre: "prefix v (map fst xs)" using b map_mono_prefix by blast
  then obtain x xs' where "xs = x # xs'" using assms(1) by (cases xs) auto
  then have "replace_all_tr v r xs = written r @ replace_all_tr v r (drop (length v) xs)"
    using pre assms(1) by (simp only: replace_all_tr.simps if_True simp_thms)
  then show False using assms b by (cases b; cases r) (auto simp: kept_def written_def)
qed

lemma no_kept_value:
  "v \<noteq> [] \<Longrightarrow> r \<noteq> [] \<Longrightarrow> kept b \<Longrightarrow> sublist b (replace_all_tr v r xs) \<Longrightarrow> map fst b \<noteq> v"
proof (induction v r xs rule: replace_all_tr.induct)
  case (2 v r x xs)
  show ?case
  proof (cases "v \<noteq> [] \<and> prefix v (map fst (x # xs))")
    case True
    then have "sublist b (replace_all_tr v r (drop (length v) (x # xs)))"
      using 2(6) kept_after_written [OF _ 2(5)] by simp
    then show ?thesis using True 2 by blast
  next
    case False
    show ?thesis
    proof (cases "prefix b (replace_all_tr v r (x # xs))")
      case True
      then show ?thesis using no_kept_prefix 2(3-5) by blast
    next
      case pre: False
      then have "sublist b (replace_all_tr v r xs)" using False 2(6) by (auto simp: sublist_Cons_right)
      then show ?thesis using False 2 by blast
    qed
  qed
qed auto

lemma cuts_apply: "p \<noteq> [] \<Longrightarrow> cuts xs (apply_triple_tr (u, p, w) xs)"
  by (simp add: apply_triple_tr_def cuts_replace_all cuts_replace_token)

lemma fold_kept_run:
  assumes "\<forall>(u, p, w) \<in> set ts. p \<noteq> []" "kept b" "sublist b (scrub_traced ts xs)" shows "sublist b xs"
  using assms
proof (induction ts arbitrary: xs)
  case (Cons t ts)
  obtain u p w where t: "t = (u, p, w)" by (cases t)
  have "sublist b (apply_triple_tr t xs)" using Cons by (auto simp: scrub_traced_def)
  then show ?case using cuts_kept_run [OF cuts_apply Cons(3)] Cons(2) t by auto
qed (simp add: scrub_traced_def)

lemma scrub_no_kept_value:
  assumes "(v, ph, False) \<in> set ts" "v \<noteq> []" "\<forall>(u, p, w) \<in> set ts. p \<noteq> []"
    and "kept b" "sublist b (scrub_traced ts xs)"
  shows "map fst b \<noteq> v"
proof -
  obtain ts1 ts2 where ts: "ts = ts1 @ (v, ph, False) # ts2" using assms(1) split_list by metis
  let ?ys = "scrub_traced ts1 xs"
  have "scrub_traced ts xs = scrub_traced ts2 (replace_all_tr v ph ?ys)"
    by (simp add: scrub_traced_def ts apply_triple_tr_def)
  then have "sublist b (replace_all_tr v ph ?ys)"
    using assms(3-5) ts fold_kept_run [of ts2 b "replace_all_tr v ph ?ys"] by auto
  moreover have "ph \<noteq> []" using assms(1,3) by auto
  ultimately show ?thesis using no_kept_value [OF assms(2) _ assms(4)] by blast
qed

end
