(* ===== verification/Swap_Hooks.thy ===== *)
theory Swap_Hooks
  imports Swap_Scrub Egress_Guard
begin

section \<open>The hooks of the proxy (proxy/swap_addon.py)\<close>

text \<open>
  Loading the configuration, and the two hooks that insert secrets: \<open>request\<close> and
  \<open>websocket_message\<close>. The header map is given as mitmproxy presents it: its keys, each with all
  its values; the query as the pairs mitmproxy decodes from the path. What the scan for real secret
  values in a request to a host that is not allowlisted finds is a parameter (\<open>None\<close> when it
  raises).
\<close>

subsection \<open>Loading\<close>

text \<open>A line-format file: absent, unreadable or not UTF-8, or its text.\<close>

datatype text_file = Absent | Unreadable | Readable string

definition host_lines :: "string \<Rightarrow> string list" where
  "host_lines text =
     map str_lower (filter (\<lambda>l. l \<noteq> [] \<and> \<not> prefix ''#'' l) (map str_strip (str_splitlines text)))"

definition load_hosts :: "text_file \<Rightarrow> string list" where
  "load_hosts f = (case f of Readable text \<Rightarrow> host_lines text | _ \<Rightarrow> [])"

definition multi_marker :: string where "multi_marker = ''#hsurr:multi''"

text \<open>\<open>ENTRY_LINE_RE\<close>: a name, an equals sign and the value.\<close>

definition entry_line :: "string \<Rightarrow> (string \<times> string) option" where
  "entry_line l =
     (case after_word l of
        [] \<Rightarrow> None
      | c # v \<Rightarrow> if word_of l \<noteq> [] \<and> c = CHR ''='' then Some (word_of l, v) else None)"

fun collect_entries :: "string list \<Rightarrow> (string \<times> string) list \<Rightarrow> (string \<times> string) list" where
  "collect_entries [] d = d"
| "collect_entries (l # ls) d =
     collect_entries ls (case entry_line l of None \<Rightarrow> d | Some (k, v) \<Rightarrow> assoc_put k v d)"

definition load_secret_file :: "text_file \<Rightarrow> secret option" where
  "load_secret_file f =
     (case f of
        Readable text \<Rightarrow>
          (let ls = filter (\<lambda>l. str_strip l \<noteq> []) (str_splitlines text)
           in if ls = [] \<or> str_strip (hd ls) \<noteq> multi_marker then Some (Single text)
              else Some (Multi (collect_entries (tl ls) [])))
      | _ \<Rightarrow> None)"

text \<open>\<open>NAME_RE\<close> is anchored with \<open>^..$\<close>.\<close>

definition name_ok :: "string \<Rightarrow> bool" where
  "name_ok n = (let m = drop_final_newline n in m \<noteq> [] \<and> list_all is_word_char m)"

definition load_secrets :: "(string \<times> text_file) list \<Rightarrow> (string \<times> secret) list" where
  "load_secrets fs =
     List.map_filter (\<lambda>(n, f). if name_ok n then map_option (Pair n) (load_secret_file f) else None) fs"

text \<open>\<open>_load_smoke_hosts\<close>.\<close>

definition load_smoke_hosts :: "text_file \<Rightarrow> (string \<times> secret) list \<Rightarrow> swap \<Rightarrow> swap" where
  "load_smoke_hosts f secrets s =
     (let hosts = load_hosts f;
          valid = hosts \<noteq> [];
          s1 = (if valid then
                  s\<lparr>sw_smoke_seen := fold (\<lambda>h seen. if h \<in> set seen then seen else seen @ [h]) hosts (sw_smoke_seen s),
                    sw_poisoned := False\<rparr>
                else if sw_smoke_seen s \<noteq> [] \<and> \<not> sw_poisoned s then s\<lparr>sw_poisoned := True\<rparr>
                else if sw_smoke_seen s = [] \<and> \<not> sw_startup_checked s \<and> map_of secrets ''smoke-test'' \<noteq> None
                then s\<lparr>sw_poisoned := True\<rparr> else s)
      in s1\<lparr>sw_startup_checked := True\<rparr>)"

text \<open>The configuration files as one load reads them.\<close>

record disk_files =
  df_registry :: registry
  df_secrets :: "(string \<times> text_file) list"
  df_hosts :: text_file
  df_smoke :: text_file
  df_stream :: text_file
  df_ssrf :: text_file
  df_deny :: text_file

record addon =
  ad_swap :: swap
  ad_ssrf :: ssrf_config
  ad_stamps :: "(int option \<times> int option \<times> int option \<times> int option \<times> int option \<times> int option \<times> int option) option"
  ad_sig :: "(string \<times> int \<times> int) list"

text \<open>The modification times and the per-file signature \<open>_maybe_reload\<close> compares.\<close>

type_synonym stamps =
  "(int option \<times> int option \<times> int option \<times> int option \<times> int option \<times> int option \<times> int option)
    \<times> (string \<times> int \<times> int) list"

definition load_ssrf :: "disk_files \<Rightarrow> ssrf_config" where
  "load_ssrf d =
     (let (ah, an) = (case df_ssrf d of Readable t \<Rightarrow> parse_ssrf_allow t | _ \<Rightarrow> ([], []));
          (dh, dn) = (case df_deny d of Readable t \<Rightarrow> parse_ssrf_allow t | _ \<Rightarrow> ([], []))
      in \<lparr>deny_hosts = dh, deny_nets = dn, ssrf_hosts = ah, ssrf_nets = an\<rparr>)"

text \<open>
  \<open>_load\<close>: the files are read first, the modification times are taken after that; only the
  signature of the secret files is taken with them.
\<close>

definition load :: "disk_files \<Rightarrow> stamps \<Rightarrow> addon \<Rightarrow> addon" where
  "load d st a =
     (let secrets = load_secrets (df_secrets d);
          s = load_smoke_hosts (df_smoke d) secrets (ad_swap a)
      in a\<lparr>ad_swap := s\<lparr>sw_secrets := secrets, sw_hosts := load_hosts (df_hosts d),
             sw_stream_hosts := load_hosts (df_stream d),
             sw_cookie_names := cookie_swap_names (df_registry d),
             sw_gate := load_registry (df_registry d) (sw_gate s)\<rparr>,
           ad_ssrf := load_ssrf d, ad_stamps := Some (fst st), ad_sig := snd st\<rparr>)"

text \<open>\<open>_maybe_reload\<close>: the times as the gate sees them, the files and the times the load then finds.\<close>

definition maybe_reload :: "stamps \<Rightarrow> disk_files \<Rightarrow> stamps \<Rightarrow> addon \<Rightarrow> addon" where
  "maybe_reload seen d st a =
     (if ad_stamps a \<noteq> Some (fst seen) \<or> ad_sig a \<noteq> snd seen then load d st a else a)"

subsection \<open>Headers\<close>

definition never_swap_headers :: "string list" where
  "never_swap_headers = [''referer'', ''origin'']"

definition swap_authorization ::
  "surroundings \<Rightarrow> string \<Rightarrow> string option \<Rightarrow> string option \<Rightarrow> string list \<Rightarrow> swap
    \<Rightarrow> string list option \<times> swap"
where
  "swap_authorization w host verb path vals s =
     (case swap_each (swap_basic_auth w host verb path) vals s of
        (None, s1) \<Rightarrow> (None, s1)
      | (Some nvs, s1) \<Rightarrow>
          swap_each (\<lambda>(v, nv) s. if nv = v then swap_text w None host verb path (Some (auth_location v)) v s
                                 else (Some nv, s)) (zip vals nvs) s1)"

definition swap_header ::
  "surroundings \<Rightarrow> string \<Rightarrow> string option \<Rightarrow> string option \<Rightarrow> string \<times> string list \<Rightarrow> swap
    \<Rightarrow> (string \<times> string list) option \<times> swap"
where
  "swap_header w host verb path = (\<lambda>(key, vals) s.
     let kl = str_lower key in
     if kl \<in> set never_swap_headers then (Some (key, vals), s)
     else case
       (if kl = ''authorization'' then swap_authorization w host verb path vals s
        else if kl = ''cookie'' then
          swap_each (swap_text w (Some (sw_cookie_names s)) host verb path (Some (In_Header ''cookie''))) vals s
        else swap_each (swap_text w None host verb path (Some (In_Header kl))) vals s) of
       (None, s1) \<Rightarrow> (None, s1)
     | (Some new_vals, s1) \<Rightarrow> (Some (key, new_vals), s1))"

definition swap_headers ::
  "surroundings \<Rightarrow> string \<Rightarrow> string option \<Rightarrow> string option \<Rightarrow> (string \<times> string list) list \<Rightarrow> swap
    \<Rightarrow> (string \<times> string list) list option \<times> swap"
where
  "swap_headers w host verb path hs s = swap_each (swap_header w host verb path) hs s"

subsection \<open>Requests\<close>

record http =
  rq_pretty_host :: string
  rq_host :: string
  rq_verb :: "string option"
  rq_path :: string
  rq_headers :: "(string \<times> string list) list"
  rq_query :: "(string \<times> string) list"
  rq_content :: string

datatype outcome = Forward http "(string \<times> signal) list" | Killed | Crashed

definition max_swap_body :: nat where "max_swap_body = 5 * 1024 * 1024"

definition raw_path :: "string \<Rightarrow> string" where
  "raw_path p = before_char CHR ''?'' p"

definition swap_segment ::
  "surroundings \<Rightarrow> string \<Rightarrow> string option \<Rightarrow> string option \<Rightarrow> string \<Rightarrow> swap
    \<Rightarrow> (string \<times> bool) option \<times> swap"
where
  "swap_segment w host verb path seg s =
     (case swap_text w None host verb path (Some In_Path) (unquote seg) s of
        (None, s1) \<Rightarrow> (None, s1)
      | (Some d, s1) \<Rightarrow> (Some (if d \<noteq> unquote seg then (quote d, True) else (seg, False)), s1))"

text \<open>The new path, from the swapped segments and query.\<close>

definition new_target :: "http \<Rightarrow> (string \<times> string) list \<Rightarrow> (string \<times> bool) list \<Rightarrow> string" where
  "new_target rq new_q segs =
     (let path_changed = list_ex snd segs; query_changed = (new_q \<noteq> rq_query rq) in
      if path_changed \<or> query_changed then
        (let new_path = (if path_changed then str_join CHR ''/'' (map fst segs) else raw_path (rq_path rq))
         in if new_q \<noteq> [] then new_path @ ''?'' @ urlencode new_q else new_path)
      else rq_path rq)"

definition content_type :: "(string \<times> string list) list \<Rightarrow> string" where
  "content_type hs =
     (case filter (\<lambda>(k, _). str_lower k = ''content-type'') hs of
        (_, v # vs) # _ \<Rightarrow> concat (v # map (\<lambda>x. '', '' @ x) vs)
      | _ \<Rightarrow> [])"

definition swap_body ::
  "surroundings \<Rightarrow> string \<Rightarrow> string option \<Rightarrow> string option \<Rightarrow> string \<Rightarrow> string \<Rightarrow> swap \<Rightarrow> string option \<times> swap"
where
  "swap_body w host verb path ctype body s =
     (if body = [] then (Some body, s)
      else if max_swap_body < length body then (Some body, audit_note w host ''request-body'' ''over-swap-cap'' s)
      else if \<not> utf8_ok body then (Some body, s)
      else if contains ''application/json'' ctype then swap_json_text w host verb path (Some In_Body) body s
      else if contains ''application/x-www-form-urlencoded'' ctype
      then swap_form_body w host verb path (Some In_Body) body s
      else swap_text w None host verb path (Some In_Body) body s)"

text \<open>\<open>_stash_approval_signal\<close>: the signals without repetitions.\<close>

definition stash_approval_signal :: "http \<Rightarrow> swap \<Rightarrow> outcome \<times> swap" where
  "stash_approval_signal rq s =
     (let sigs = (case sw_signals s of None \<Rightarrow> [] | Some l \<Rightarrow> l)
      in (Forward rq (rev (remdups (rev sigs))), s\<lparr>sw_signals := None\<rparr>))"

text \<open>The swap of an authorised request: headers, then query, path and body unless the proxy is the inference one.\<close>

definition swap_request :: "surroundings \<Rightarrow> http \<Rightarrow> swap \<Rightarrow> outcome \<times> swap" where
  "swap_request w rq s =
     (let host = rq_pretty_host rq; verb = rq_verb rq; path = Some (rq_path rq) in
      case swap_headers w host verb path (rq_headers rq) s of
        (None, s1) \<Rightarrow> (Crashed, s1)
      | (Some hs, s1) \<Rightarrow>
          if w_inference w then stash_approval_signal (rq\<lparr>rq_headers := hs\<rparr>) s1
          else (case swap_each (swap_field (swap_text w None host verb path (Some In_Query))) (rq_query rq) s1 of
              (None, s2) \<Rightarrow> (Crashed, s2)
            | (Some new_q, s2) \<Rightarrow>
                (case swap_each (swap_segment w host verb path) (str_split CHR ''/'' (raw_path (rq_path rq))) s2 of
                   (None, s3) \<Rightarrow> (Crashed, s3)
                 | (Some segs, s3) \<Rightarrow>
                     (case swap_body w host verb path (content_type hs) (rq_content rq) s3 of
                        (None, s4) \<Rightarrow> (Crashed, s4)
                      | (Some body, s4) \<Rightarrow>
                          stash_approval_signal (rq\<lparr>rq_headers := hs, rq_path := new_target rq new_q segs,
                            rq_content := body\<rparr>) s4))))"

subsection \<open>Hosts that may not swap\<close>

text \<open>Decoding with \<open>"ignore"\<close> drops the bytes that are not UTF-8.\<close>

function utf8_ignore :: "string \<Rightarrow> string" where
  "utf8_ignore [] = []"
| "utf8_ignore (b # bs) =
     (case lead_ranges (char_code b) of
        None \<Rightarrow> utf8_ignore bs
      | Some rs \<Rightarrow>
          let k = good_conts rs bs in
          (if k = length rs then b # take k bs else []) @ utf8_ignore (drop k bs))"
  by pat_completeness auto
termination
  by (relation "measure length") auto

definition header_chunks :: "string \<times> string list \<Rightarrow> string list" where
  "header_chunks = (\<lambda>(k, vs). concat (map (\<lambda>v.
     v # (if str_lower k = ''authorization''
          then (case basic_decoded v of None \<Rightarrow> [] | Some d \<Rightarrow> if d = [] then [] else [d]) else [])) vs))"

definition placeholder_names :: "spelling \<Rightarrow> string \<Rightarrow> string list" where
  "placeholder_names sp s = List.map_filter (\<lambda>p. case p of Ph n e t \<Rightarrow> Some n | Lit c \<Rightarrow> None) (pieces sp s)"

definition warn_if_placeholder :: "surroundings \<Rightarrow> http \<Rightarrow> swap \<Rightarrow> swap" where
  "warn_if_placeholder w rq s =
     (let joined = str_join newline_char
            (rq_content rq # concat (map header_chunks (rq_headers rq)) @ [rq_path rq]);
          gate = str_lower joined;
          text = utf8_ignore joined;
          names = placeholder_names Plain text @ placeholder_names Encoded text
      in if \<not> contains ''hsurr:'' gate \<and> \<not> contains ''hsurr%3a'' gate then s
         else fold (\<lambda>n. audit_refused w (rq_pretty_host rq) n ''host-not-allowlisted'')
                (rev (remdups (rev names))) s)"

text \<open>The values to look for, from the loaded configuration and the clock.\<close>

definition current_triples :: "surroundings \<Rightarrow> swap \<Rightarrow> triple list" where
  "current_triples w s = secret_replacements (g_registry (sw_gate s)) (sw_secrets s) (w_now w (sw_tick s))"

definition header_names :: "triple list \<Rightarrow> string \<times> string list \<Rightarrow> string list" where
  "header_names ts = (\<lambda>(k, vs).
     let kl = str_lower k in
     if kl \<in> set unscrubbed_headers then []
     else concat (map (\<lambda>v. matched_names ts v
       @ (if kl = ''authorization'' \<or> kl = ''proxy-authorization''
          then (case basic_decoded v of None \<Rightarrow> [] | Some d \<Rightarrow> matched_names ts d) else [])) vs))"

text \<open>\<open>_request_secret_names\<close>.\<close>

definition request_secret_names ::
  "surroundings \<Rightarrow> triple list \<Rightarrow> http \<Rightarrow> swap \<Rightarrow> string list \<times> swap"
where
  "request_secret_names w ts rq s =
     (let host = rq_pretty_host rq; body = rq_content rq;
          names = matched_names ts host @ decode_stage_names ts (rq_path rq)
            @ concat (map (header_names ts) (rq_headers rq))
      in if body = [] then (dedup names, s)
         else if max_swap_body < length body
         then (dedup names, audit_note w (audit_target_host ts host) ''request-body'' ''over-scan-cap'' s)
         else if \<not> utf8_ok body then (dedup names, s)
         else (dedup (names @ decode_stage_names ts body), s))"

text \<open>The scan raises, before or after the values to look for are known, or it completes.\<close>

datatype scan_fate = Scan_Raises bool | Scan_Completes

text \<open>A request to a host that is not allowlisted.\<close>

definition refuse_secrets :: "surroundings \<Rightarrow> scan_fate \<Rightarrow> http \<Rightarrow> swap \<Rightarrow> outcome \<times> swap" where
  "refuse_secrets w fate rq s =
     (let ts = current_triples w s; host = rq_pretty_host rq in
      case fate of
        Scan_Raises known \<Rightarrow>
          (Killed, audit_note w (if known then audit_target_host ts host else host)
             ''request-secret-refused'' ''check-error'' (tick s))
      | Scan_Completes \<Rightarrow>
          (case request_secret_names w ts rq (tick s) of
             ([], s1) \<Rightarrow> (Forward rq [], s1)
           | (names, s1) \<Rightarrow>
               (Killed, audit_note w (audit_target_host ts host) ''request-secret-refused''
                  (''real-value:'' @ str_join CHR '','' names) s1)))"

definition request ::
  "surroundings \<Rightarrow> scan_fate \<Rightarrow> server_conn \<Rightarrow> http \<Rightarrow> swap \<Rightarrow> outcome \<times> swap"
where
  "request w fate srv rq s0 =
     (let s = s0\<lparr>sw_gate := reset_verdicts (sw_gate s0), sw_signals := Some []\<rparr>; host = rq_pretty_host rq in
      if \<not> host_in_list host (sw_hosts s) then refuse_secrets w fate rq (warn_if_placeholder w rq s)
      else if \<not> check_authority srv (rq_host rq) host then (Forward rq [], audit_authority_mismatch w host s)
      else swap_request w rq s)"

subsection \<open>WebSocket messages\<close>

record ws_message =
  ws_binary :: bool
  ws_content :: string

definition host_allows_stream :: "string \<Rightarrow> swap \<Rightarrow> bool" where
  "host_allows_stream host s = (sw_stream_hosts s \<noteq> [] \<and> host_in_list host (sw_stream_hosts s))"

text \<open>The last message of the flow, or none.\<close>

definition websocket_message ::
  "surroundings \<Rightarrow> server_conn \<Rightarrow> string \<Rightarrow> string \<Rightarrow> ws_message option \<Rightarrow> swap
    \<Rightarrow> ws_message option option \<times> swap"
where
  "websocket_message w srv req_host host msg s0 =
     (let s = s0\<lparr>sw_gate := reset_verdicts (sw_gate s0), sw_signals := None\<rparr> in
      if \<not> host_in_list host (sw_hosts s) then (Some msg, s)
      else if \<not> check_authority srv req_host host then (Some msg, audit_authority_mismatch w host s)
      else if w_inference w then (Some msg, s)
      else if \<not> host_allows_stream host s then (Some msg, s)
      else case msg of
        None \<Rightarrow> (Some None, s)
      | Some m \<Rightarrow>
          if ws_binary m then (Some msg, s)
          else if max_swap_body < length (ws_content m)
          then (Some msg, audit_note w host ''websocket-message'' ''over-swap-cap'' s)
          else if \<not> utf8_ok (ws_content m) then (Some msg, s)
          else (case swap_text w None host None None (Some In_Body) (ws_content m) s of
              (None, s1) \<Rightarrow> (None, s1)
            | (Some t, s1) \<Rightarrow> (Some (Some (m\<lparr>ws_content := t\<rparr>)), s1)))"

subsection \<open>The entry points\<close>

definition request_hook ::
  "stamps \<Rightarrow> disk_files \<Rightarrow> stamps \<Rightarrow> surroundings \<Rightarrow> scan_fate \<Rightarrow> server_conn \<Rightarrow> http \<Rightarrow> addon
    \<Rightarrow> outcome \<times> addon"
where
  "request_hook seen d st w fate srv rq a =
     (let a1 = maybe_reload seen d st a;
          (r, s) = request w fate srv rq (ad_swap a1)
      in (r, a1\<lparr>ad_swap := s\<rparr>))"

end
