(* ===== verification/Swap_Hook_Safety.thy ===== *)
theory Swap_Hook_Safety
  imports Swap_Hooks Swap_Safety
begin

section \<open>Correctness of the hooks\<close>

text \<open>
  A relation between states that the substitution of one placeholder, of a JSON body, and the
  notes in the log respect is respected by a whole hook. The locale states that contract; the
  properties of the hooks use it for the evolution of the state and for the lines of the log.
\<close>

subsection \<open>From the steps to the hook\<close>

locale hook_steps =
  fixes w :: surroundings and host :: string and verb path :: "string option"
    and R :: "swap \<Rightarrow> swap \<Rightarrow> bool"
  assumes same: "R s s"
    and chain: "R s s' \<Longrightarrow> R s' s'' \<Longrightarrow> R s s''"
    and piece: "R s (snd (swap_piece w md enc allow host verb path loc p s))"
    and json: "R s (snd (swap_json_text w host verb path loc text s))"
    and noted: "R s (audit_note w host what why s)"
begin

lemma pieces_step: "R s (snd (swap_pieces w md enc allow host verb path loc ps s))"
proof (induction ps arbitrary: s)
  case (Cons p ps)
  obtain r s1 where p: "swap_piece w md enc allow host verb path loc p s = (r, s1)" by force
  have s1: "R s s1" using piece [of s md enc allow loc p] p by simp
  obtain r' s2 where ps: "swap_pieces w md enc allow host verb path loc ps s1 = (r', s2)" by force
  have "R s1 s2" using Cons.IH [of s1] ps by simp
  then show ?case using s1 chain by (auto simp: p ps split: option.split prod.split)
qed (simp add: same)

lemma text_step: "R s (snd (swap_text w allow host verb path loc text s))"
  using pieces_step by (simp add: swap_text_def text_result_def case_prod_beta)

lemma urlencoded_step: "R s (snd (swap_urlencoded w host verb path loc text s))"
  using pieces_step by (simp add: swap_urlencoded_def text_result_def case_prod_beta)

lemma each_step:
  assumes "\<And>x s. R s (snd (f x s))" shows "R s (snd (swap_each f xs s))"
proof (induction xs arbitrary: s)
  case (Cons x xs)
  obtain r s1 where r: "f x s = (r, s1)" by force
  have s1: "R s s1" using assms [of s x] r by simp
  obtain r' s2 where r': "swap_each f xs s1 = (r', s2)" by force
  have "R s1 s2" using Cons.IH [of s1] r' by simp
  then show ?case using s1 chain by (auto simp: r r' split: option.split)
qed (simp add: same)

lemma field_step: "(\<And>x s. R s (snd (f x s))) \<Longrightarrow> R s (snd (swap_field f kv s))"
  by (simp add: swap_field_def case_prod_beta)

lemma form_step: "R s (snd (swap_form_body w host verb path loc text s))"
proof -
  obtain r s1 where r: "swap_each (swap_field (swap_text w None host verb path loc)) (parse_qsl text) s = (r, s1)"
    by force
  have s1: "R s s1"
    using each_step [of "swap_field (swap_text w None host verb path loc)" s "parse_qsl text"]
      field_step [of "swap_text w None host verb path loc"] text_step r by simp
  then show ?thesis
    using urlencoded_step [of s1 loc "text"] chain by (auto simp: swap_form_body_def r split: option.split)
qed

lemma basic_step: "R s (snd (swap_basic_auth w host verb path v s))"
proof (cases "basic_decoded v")
  case (Some d)
  then show ?thesis
    using text_step [of s None "Some (In_Header ''authorization:basic'')" d]
    by (auto simp: swap_basic_auth_def split: option.split prod.split)
qed (simp add: swap_basic_auth_def same)

lemma authorization_step: "R s (snd (swap_authorization w host verb path vals s))"
proof -
  obtain r s1 where r: "swap_each (swap_basic_auth w host verb path) vals s = (r, s1)" by force
  have s1: "R s s1" using each_step [of "swap_basic_auth w host verb path" s vals] basic_step r by simp
  have plain: "R s (snd ((\<lambda>(v, nv) s. if nv = v
      then swap_text w None host verb path (Some (auth_location v)) v s else (Some nv, s)) x s))" for x s
    using text_step same by (cases x) auto
  show ?thesis
  proof (cases r)
    case (Some nvs)
    show ?thesis
      using chain [OF s1 each_step [OF plain]] by (simp add: swap_authorization_def r Some)
  qed (use s1 in \<open>simp add: swap_authorization_def r\<close>)
qed

lemma header_step: "R s (snd (swap_header w host verb path h s))"
proof -
  obtain key vals where h: "h = (key, vals)" by force
  show ?thesis
    using authorization_step [of s vals] each_step [OF text_step] same [of s]
    unfolding swap_header_def h Let_def prod.case
    by (auto simp: case_prod_beta split: option.split)
qed

lemma headers_step: "R s (snd (swap_headers w host verb path hs s))"
  unfolding swap_headers_def by (rule each_step [OF header_step])

lemma segment_step: "R s (snd (swap_segment w host verb path seg s))"
  using text_step [of s None "Some In_Path" "unquote seg"]
  by (auto simp: swap_segment_def split: option.split prod.split)

lemma body_step: "R s (snd (swap_body w host verb path ctype body s))"
  using json form_step text_step same noted by (simp add: swap_body_def)

end

subsection \<open>The contract kept\<close>

interpretation evolving: hook_steps w host verb path "evolves w b" for w host verb path b
proof unfold_locales
  fix s s' s'' :: swap and md enc allow loc p body what why
  show "evolves w b s s" by simp
  show "evolves w b s s''" if "evolves w b s s'" "evolves w b s' s''" using that by (rule evolves_trans)
  show "evolves w b s (snd (swap_piece w md enc allow host verb path loc p s))" by (simp add: evolves_swap_piece)
  show "evolves w b s (snd (swap_json_text w host verb path loc body s))" by (simp add: evolves_swap_json_text)
  show "evolves w b s (audit_note w host what why s)" by (simp add: evolves_audit_note)
qed

text \<open>A line of the log that stands for an authorised release.\<close>

definition line_ok ::
  "surroundings \<Rightarrow> int \<Rightarrow> int \<Rightarrow> swap \<Rightarrow> string \<Rightarrow> string option \<Rightarrow> string option \<Rightarrow> audit_line \<Rightarrow> bool"
where
  "line_ok w b t s host verb path l \<longleftrightarrow>
     (\<exists>n e loc v. l = Swapped host (canonical n e)
        \<and> may_release w b t s n (or_default e ''access_token'') host verb path loc v)"

definition writes ::
  "surroundings \<Rightarrow> int \<Rightarrow> string \<Rightarrow> string option \<Rightarrow> string option \<Rightarrow> swap \<Rightarrow> swap \<Rightarrow> bool"
where
  "writes w b host verb path s s' \<longleftrightarrow> evolves w b s s' \<and>
     (time_flows w \<longrightarrow> cache_ok b (now_of w s) (sw_gate s) \<longrightarrow>
       (\<exists>lines. trail s' = trail s @ lines
          \<and> (\<forall>l \<in> set lines. line_ok w b (now_of w s') s host verb path l)))"

lemma writes_quiet: "evolves w b s s' \<Longrightarrow> trail s' = trail s \<Longrightarrow> writes w b host verb path s s'"
  by (simp add: writes_def)

lemma line_ok_back:
  "evolves w b s s' \<Longrightarrow> line_ok w b t s' host verb path l \<Longrightarrow> t \<le> t' \<Longrightarrow> line_ok w b t' s host verb path l"
  unfolding line_ok_def using may_release_back by blast

lemma writes_trans:
  assumes "writes w b host verb path s s'" and "writes w b host verb path s' s''"
  shows "writes w b host verb path s s''"
proof -
  have e: "evolves w b s s'" "evolves w b s' s''" using assms by (simp_all add: writes_def)
  have "\<exists>lines. trail s'' = trail s @ lines \<and> (\<forall>l \<in> set lines. line_ok w b (now_of w s'') s host verb path l)"
    if flow: "time_flows w" and ok: "cache_ok b (now_of w s) (sw_gate s)"
  proof -
    obtain l1 where l1: "trail s' = trail s @ l1" "\<forall>l \<in> set l1. line_ok w b (now_of w s') s host verb path l"
      using assms(1) flow ok unfolding writes_def by blast
    obtain l2 where l2: "trail s'' = trail s' @ l2" "\<forall>l \<in> set l2. line_ok w b (now_of w s'') s' host verb path l"
      using assms(2) flow evolves_cache_ok [OF flow e(1) ok] unfolding writes_def by blast
    have "\<forall>l \<in> set (l1 @ l2). line_ok w b (now_of w s'') s host verb path l"
      using l1(2) l2(2) line_ok_back [OF e(1) _ order_refl] line_ok_back [OF evolves_refl _ evolves_now [OF flow e(2)]]
      by auto
    then show ?thesis using l1(1) l2(1) by (intro exI [of _ "l1 @ l2"]) simp
  qed
  then show ?thesis using evolves_trans [OF e] by (simp add: writes_def)
qed

lemma swap_piece_raises:
  "swap_piece w md enc allow host verb path loc p s = (None, s') \<Longrightarrow> trail s' = trail s"
  using trail_resolve [of w] by (auto simp: swap_piece_def split: piece.splits option.splits prod.splits
      swap_mode.splits bool.splits if_splits) (metis snd_conv)+

lemma outcome_line_ok:
  assumes "outcome_ok w b t s allow host verb path loc p r" and "l \<in> set (released_line host p r)"
  shows "line_ok w b t s host verb path l"
  using assms by (cases "(host, p, r)" rule: released_line.cases) (auto simp: line_ok_def)

lemma writes_swap_piece:
  "writes w b host verb path s (snd (swap_piece w md enc allow host verb path loc p s))"
proof -
  obtain r s' where run: "swap_piece w md enc allow host verb path loc p s = (r, s')" by force
  have e: "evolves w b s s'" using evolving.piece [of w b s md enc allow host verb path loc p] run by simp
  show ?thesis
  proof (cases r)
    case None
    then show ?thesis using swap_piece_raises run writes_quiet [OF e] by simp
  next
    case (Some tk)
    obtain t ks where tk: "tk = (t, ks)" by force
    have "\<exists>lines. trail s' = trail s @ lines \<and> (\<forall>l \<in> set lines. line_ok w b (now_of w s') s host verb path l)"
      if flow: "time_flows w" and ok: "cache_ok b (now_of w s) (sw_gate s)"
    proof -
      obtain q where "outcome_ok w b (now_of w s) s allow host verb path loc p q"
        and tr: "trail s' = trail s @ (if md = Inline then released_line host p q else [])"
        using swap_piece_accounted [OF flow ok] run Some tk by blast
      then have "\<forall>l \<in> set (released_line host p q). line_ok w b (now_of w s') s host verb path l"
        using outcome_line_ok line_ok_back [OF evolves_refl _ evolves_now [OF flow e]] by blast
      then show ?thesis using tr by auto
    qed
    then show ?thesis using e run by (simp add: writes_def)
  qed
qed

lemma trail_quiet_pass:
  assumes "md \<noteq> Inline" shows "trail (snd (swap_pieces w md enc allow host verb path loc ps s)) = trail s"
proof (induction ps arbitrary: s)
  case (Cons p ps)
  obtain r s1 where r: "swap_piece w md enc allow host verb path loc p s = (r, s1)" by force
  have "trail s1 = trail s"
    using r assms trail_resolve [of w]
    by (auto simp: swap_piece_def split: piece.splits option.splits prod.splits swap_mode.splits if_splits)
      (metis snd_conv)+
  moreover obtain r' s2 where r': "swap_pieces w md enc allow host verb path loc ps s1 = (r', s2)" by force
  moreover have "trail s2 = trail s1" using Cons.IH [of s1] r' by simp
  ultimately show ?case by (auto simp: r split: option.split)
qed simp

lemma accounted_lines_ok:
  assumes "accounted w b t s enc allow host verb path loc ps rs text lines" and "l \<in> set lines"
  shows "line_ok w b t s host verb path l"
proof -
  obtain p r where "(p, r) \<in> set (zip ps rs)" "l \<in> set (released_line host p r)"
    using assms by (auto simp: accounted_def)
  then show ?thesis using assms(1) outcome_line_ok unfolding accounted_def by blast
qed

lemma writes_swap_json_text:
  "writes w b host verb path s (snd (swap_json_text w host verb path loc text s))"
proof -
  let ?ps = "pieces Plain text" and ?enc = json_string_escape
  let ?s' = "snd (swap_json_text w host verb path loc text s)"
  have e: "evolves w b s ?s'" by (rule evolving.json)
  obtain r s1 where p1: "swap_pieces w Probe ?enc None host verb path loc ?ps s = (r, s1)" by force
  have tr1: "trail s1 = trail s" using trail_quiet_pass [of Probe] p1 by (metis snd_conv swap_mode.distinct(1))
  have e1: "evolves w b s s1" using evolving.pieces_step p1 by (metis snd_conv)
  obtain r' s2 where p2: "swap_pieces w Sink ?enc None host verb path loc ?ps s1 = (r', s2)" by force
  have tr2: "trail s2 = trail s1" using trail_quiet_pass [of Sink] p2 by (metis snd_conv swap_mode.distinct(3))
  show ?thesis
  proof (cases "\<exists>new ks. r' = Some (new, ks)")
    case False
    then have "trail ?s' = trail s"
      using tr1 tr2 p1 p2 by (auto simp: swap_json_text_def json_refusal_def Let_def split: option.split prod.split)
    then show ?thesis by (rule writes_quiet [OF e])
  next
    case True
    then obtain new ks where r': "r' = Some (new, ks)" by blast
    obtain okb s3 where ab: "audit_batch w ks s2 = (okb, s3)" by force
    have sw: "filter is_swapped (take n (map sunk_line ks)) = take n (map sunk_line ks)" for n
      by (auto simp: filter_id_conv sunk_line_def dest!: in_set_takeD)
    have sw': "filter is_swapped (map sunk_line ks) = map sunk_line ks"
      by (auto simp: filter_id_conv sunk_line_def)
    have "\<exists>n. trail s3 = trail s2 @ take n (map sunk_line ks)"
    proof (cases "w_log_ok w (sw_tick s2)")
      case True
      then show ?thesis using ab sw'
        by (intro exI [of _ "length ks"]) (auto simp: audit_batch_def trail_def tick_def split: if_splits)
    next
      case False
      then show ?thesis using ab sw
        by (intro exI [of _ "w_flushed w (sw_tick s2)"]) (auto simp: audit_batch_def trail_def tick_def split: if_splits)
    qed
    then obtain n where tr3: "trail s3 = trail s @ take n (map sunk_line ks)" using tr1 tr2 by auto
    have "trail ?s' = trail s \<or> trail ?s' = trail s @ take n (map sunk_line ks)"
      using tr1 tr2 tr3 p1 p2 r' ab
      by (auto simp: swap_json_text_def json_refusal_def Let_def split: option.split prod.split bool.split)
    moreover have "line_ok w b (now_of w ?s') s host verb path l"
      if flow: "time_flows w" and ok: "cache_ok b (now_of w s) (sw_gate s)" and l: "l \<in> set (take n (map sunk_line ks))"
        and later: "now_of w s2 \<le> now_of w ?s'" for l
    proof -
      obtain rs lines where acc: "accounted w b (now_of w s2) s1 ?enc None host verb path loc ?ps rs new lines"
        "map sunk_line ks = lines"
        using swap_pieces_accounted [OF flow evolves_cache_ok [OF flow e1 ok] p2 [unfolded r']] by auto
      show ?thesis
        using line_ok_back [OF e1 accounted_lines_ok [OF acc(1)] later] l acc(2) by (auto dest: in_set_takeD)
    qed
    moreover have "now_of w s2 \<le> now_of w ?s' \<or> trail ?s' = trail s" if "time_flows w"
    proof -
      have s3: "evolves w b s2 s3" using evolves_audit_batch [OF evolves_refl] ab by (metis snd_conv)
      have late: "evolves w b s2 (json_refusal w host why (s2\<lparr>sw_signals := x\<rparr>))"
        "evolves w b s2 (json_refusal w host why (s3\<lparr>sw_signals := x\<rparr>))"
        "evolves w b s2 (fold (\<lambda>(_, _, aid). record_approved aid) ks s3)" for why x
        using s3 by (simp_all add: json_refusal_def evolves_audit_note evolves_reset_signals evolves_approvals)
      have "evolves w b s2 ?s' \<or> trail ?s' = trail s"
        using tr1 late
        by (simp add: swap_json_text_def p1 p2 r' ab Let_def split: option.split prod.split bool.split)
          (simp add: json_refusal_def)
      then have "sw_tick s2 \<le> sw_tick ?s' \<or> trail ?s' = trail s" by (auto simp: evolves_def)
      then show ?thesis using that by (auto simp: time_flows_def now_of_def)
    qed
    ultimately show ?thesis using e unfolding writes_def by (metis append_Nil2 empty_iff list.set(1))
  qed
qed

interpretation writing: hook_steps w host verb path "writes w b host verb path" for w host verb path b
proof unfold_locales
  fix s s' s'' :: swap and md enc allow loc p body what why
  show "writes w b host verb path s s" by (rule writes_quiet) simp_all
  show "writes w b host verb path s s''" if "writes w b host verb path s s'" "writes w b host verb path s' s''"
    using that by (rule writes_trans)
  show "writes w b host verb path s (snd (swap_piece w md enc allow host verb path loc p s))"
    by (rule writes_swap_piece)
  show "writes w b host verb path s (snd (swap_json_text w host verb path loc body s))"
    by (rule writes_swap_json_text)
  show "writes w b host verb path s (audit_note w host what why s)"
    by (rule writes_quiet [OF evolving.noted]) simp
qed

subsection \<open>Requests\<close>

lemma writes_stash: "writes w b host verb path s (snd (stash_approval_signal rq s))"
  by (rule writes_quiet) (simp_all add: stash_approval_signal_def Let_def evolves_reset_signals)

lemma writes_swap_request:
  "writes w b (rq_pretty_host rq) (rq_verb rq) (Some (rq_path rq)) s (snd (swap_request w rq s))"
proof -
  let ?h = "rq_pretty_host rq" and ?v = "rq_verb rq" and ?p = "Some (rq_path rq)"
  let ?R = "writes w b ?h ?v ?p"
  obtain r1 s1 where h: "swap_headers w ?h ?v ?p (rq_headers rq) s = (r1, s1)" by force
  obtain r2 s2 where q: "swap_each (swap_field (swap_text w None ?h ?v ?p (Some In_Query))) (rq_query rq) s1 = (r2, s2)"
    by force
  obtain r3 s3 where sg: "swap_each (swap_segment w ?h ?v ?p) (str_split CHR ''/'' (raw_path (rq_path rq))) s2 = (r3, s3)"
    by force
  obtain r4 s4 where bd: "swap_body w ?h ?v ?p (content_type (the r1)) (rq_content rq) s3 = (r4, s4)" by force
  have "?R s (snd (swap_headers w ?h ?v ?p (rq_headers rq) s))" by (rule writing.headers_step)
  then have e1: "?R s s1" by (simp add: h)
  have "?R s1 (snd (swap_each (swap_field (swap_text w None ?h ?v ?p (Some In_Query))) (rq_query rq) s1))"
    by (rule writing.each_step, rule writing.field_step, rule writing.text_step)
  then have e2: "?R s1 s2" by (simp add: q)
  have "?R s2 (snd (swap_each (swap_segment w ?h ?v ?p) (str_split CHR ''/'' (raw_path (rq_path rq))) s2))"
    by (rule writing.each_step, rule writing.segment_step)
  then have e3: "?R s2 s3" by (simp add: sg)
  have "?R s3 (snd (swap_body w ?h ?v ?p (content_type (the r1)) (rq_content rq) s3))" by (rule writing.body_step)
  then have e4: "?R s3 s4" by (simp add: bd)
  note chain = writes_trans [OF e1 e2] writes_trans [OF writes_trans [OF e1 e2] e3]
    writes_trans [OF writes_trans [OF writes_trans [OF e1 e2] e3] e4]
  have stash: "?R s0 x \<Longrightarrow> ?R s0 (snd (stash_approval_signal rq' x))" for s0 x rq'
    using writes_trans writes_stash by blast
  show ?thesis
  proof (cases r1)
    case (Some hs)
    then have bd': "swap_body w ?h ?v ?p (content_type hs) (rq_content rq) s3 = (r4, s4)" using bd by simp
    show ?thesis
      using e1 chain stash by (simp add: swap_request_def Let_def h Some q sg bd' split: option.split)
  qed (simp add: swap_request_def Let_def h e1)
qed

lemma prefix_trail: "evolves w b s s' \<Longrightarrow> prefix (trail s) (trail s')"
  by (auto simp: evolves_def trail_def prefix_def)

lemma warn_quiet:
  "evolves w b s (warn_if_placeholder w rq s)" "trail (warn_if_placeholder w rq s) = trail s"
proof -
  have "evolves w b s (fold (\<lambda>n. audit_refused w h n why) ns t) \<and> trail (fold (\<lambda>n. audit_refused w h n why) ns t) = trail t"
    if "evolves w b s t" for ns t h why
    using that by (induction ns arbitrary: t) (auto simp: evolves_audit_refused)
  from this [OF evolves_refl] show "evolves w b s (warn_if_placeholder w rq s)" "trail (warn_if_placeholder w rq s) = trail s"
    by (simp_all add: warn_if_placeholder_def Let_def)
qed

lemma trail_quiet [simp]:
  "trail (tick s) = trail s" "trail (audit_note w h x y s) = trail s"
  "trail (audit_authority_mismatch w h s) = trail s"
  by (simp_all add: trail_def tick_def audit_note_def audit_authority_mismatch_def audit_write_def)

lemma refuse_quiet:
  "trail (snd (refuse_secrets w fate rq s)) = trail s"
  "fst (refuse_secrets w fate rq s) = Killed \<or> fst (refuse_secrets w fate rq s) = Forward rq []"
  by (auto simp: refuse_secrets_def request_secret_names_def Let_def split: scan_fate.splits list.splits prod.splits)

lemma refuse_forwards: "refuse_secrets w fate rq s = (Forward rq' sigs, s') \<Longrightarrow> rq' = rq \<and> sigs = []"
  using refuse_quiet(2) [of w fate rq s] by auto

lemma hook_start:
  "cache_ok (now_of w s) (now_of w s) (sw_gate (s\<lparr>sw_gate := reset_verdicts (sw_gate s), sw_signals := x\<rparr>))"
  by (simp add: cache_ok_def reset_verdicts_def)

lemma may_release_start:
  "may_release w b t (s\<lparr>sw_gate := reset_verdicts (sw_gate s), sw_signals := x\<rparr>) n e h v p l val
    = may_release w b t s n e h v p l val"
proof -
  let ?s = "s\<lparr>sw_gate := reset_verdicts (sw_gate s), sw_signals := x\<rparr>"
  have sc: "same_config s ?s" by (simp add: same_config_def reset_verdicts_def)
  have "gate_open w b t ?s n h v p = gate_open w b t s n h v p"
    by (simp add: gate_open_def grants_seen_def reset_verdicts_def)
  then show ?thesis unfolding may_release_def same_config_simps [OF sc] by (simp only:)
qed

lemma request_lines:
  assumes flow: "time_flows w" and run: "request w fate srv rq s = (r, s')"
  shows "\<exists>lines. trail s' = trail s @ lines
    \<and> (lines \<noteq> [] \<longrightarrow> host_in_list (rq_pretty_host rq) (sw_hosts s)
         \<and> check_authority srv (rq_host rq) (rq_pretty_host rq))
    \<and> (\<forall>l \<in> set lines. line_ok w (now_of w s) (now_of w s') s (rq_pretty_host rq) (rq_verb rq) (Some (rq_path rq)) l)"
proof -
  let ?s = "s\<lparr>sw_gate := reset_verdicts (sw_gate s), sw_signals := Some []\<rparr>"
  let ?ok = "host_in_list (rq_pretty_host rq) (sw_hosts s) \<and> check_authority srv (rq_host rq) (rq_pretty_host rq)"
  show ?thesis
  proof (cases ?ok)
    case False
    have "trail s' = trail s"
      using run False warn_quiet(2) [of w rq ?s] refuse_quiet(1) [of w fate rq "warn_if_placeholder w rq ?s"]
      by (auto simp: request_def Let_def split: if_splits)
    then show ?thesis by auto
  next
    case True
    then have s': "s' = snd (swap_request w rq ?s)" using run by (simp add: request_def Let_def)
    have "cache_ok (now_of w s) (now_of w ?s) (sw_gate ?s)" using hook_start [of w s] by (simp add: now_of_def)
    then obtain lines where "trail s' = trail ?s @ lines"
      "\<forall>l \<in> set lines. line_ok w (now_of w s) (now_of w s') ?s (rq_pretty_host rq) (rq_verb rq) (Some (rq_path rq)) l"
      using writes_swap_request [of w "now_of w s" rq ?s] flow s' unfolding writes_def by blast
    then show ?thesis using True may_release_start by (auto simp: line_ok_def)
  qed
qed


subsection \<open>No change without a line\<close>

lemma quiet_split:
  assumes "evolves w b s s1" and "evolves w b s1 s2" and "trail s2 = trail s"
  shows "trail s1 = trail s" and "trail s2 = trail s1"
  using prefix_trail [OF assms(1)] prefix_trail [OF assms(2)] assms(3)
  by (auto dest: prefix_order.antisym)

lemma quiet_piece:
  assumes "swap_piece w Inline enc allow host verb path loc p s = (Some (t, ks), s')" and "trail s' = trail s"
  shows "t = piece_text p"
proof (cases p)
  case (Ph n e x)
  obtain r s1 where r: "resolve w n (or_default e ''access_token'') host verb path loc s = (r, s1)" by force
  have tr: "trail s1 = trail s" using trail_resolve r by (metis snd_conv)
  obtain ok s2 where a: "audit w host (canonical n e) s1 = (ok, s2)" by force
  have "ok \<Longrightarrow> trail s2 \<noteq> trail s1" using a by (auto simp: audit_def audit_write_def trail_def split: if_splits)
  then show ?thesis
    using assms r tr a by (auto simp: swap_piece_def Ph split: option.splits bool.splits if_splits)
qed (use assms in \<open>simp add: swap_piece_def\<close>)

lemma quiet_pieces:
  "swap_pieces w Inline enc allow host verb path loc ps s = (Some (t, ks), s') \<Longrightarrow> trail s' = trail s \<Longrightarrow>
    t = concat (map piece_text ps)"
proof (induction ps arbitrary: s t ks)
  case (Cons p ps)
  obtain t1 k1 s1 where h: "swap_piece w Inline enc allow host verb path loc p s = (Some (t1, k1), s1)"
    using Cons.prems(1) by (auto split: option.splits prod.splits)
  obtain t2 k2 where tl: "swap_pieces w Inline enc allow host verb path loc ps s1 = (Some (t2, k2), s')" and eq: "t = t1 @ t2"
    using Cons.prems(1) h by (auto split: option.splits prod.splits)
  have e: "evolves w 0 s s1" "evolves w 0 s1 s'"
    using evolving.piece [of w 0 s] evolving.pieces_step [of w 0 s1] h tl by (metis snd_conv)+
  note q = quiet_split [OF e Cons.prems(2)]
  show ?case using quiet_piece [OF h q(1)] Cons.IH [OF tl q(2)] eq by simp
qed simp

lemma quiet_text: "swap_text w allow host verb path loc text s = (Some t, s') \<Longrightarrow> trail s' = trail s \<Longrightarrow> t = text"
  using quiet_pieces pieces_spell by (fastforce simp: swap_text_def text_result_def split: prod.splits)

lemma quiet_urlencoded: "swap_urlencoded w host verb path loc text s = (Some t, s') \<Longrightarrow> trail s' = trail s \<Longrightarrow> t = text"
  using quiet_pieces pieces_spell by (fastforce simp: swap_urlencoded_def text_result_def split: prod.splits)

lemma quiet_each:
  assumes "\<And>x s y s'. f x s = (Some y, s') \<Longrightarrow> trail s' = trail s \<Longrightarrow> y = g x"
    and "\<And>x s. evolves w b s (snd (f x s))"
  shows "swap_each f xs s = (Some ys, s') \<Longrightarrow> trail s' = trail s \<Longrightarrow> ys = map g xs"
proof (induction xs arbitrary: s ys)
  case (Cons x xs)
  obtain y s1 where h: "f x s = (Some y, s1)" using Cons.prems(1) by (auto split: option.splits prod.splits)
  obtain zs where tl: "swap_each f xs s1 = (Some zs, s')" and eq: "ys = y # zs"
    using Cons.prems(1) h by (auto split: option.splits prod.splits)
  have e1: "evolves w b s s1" using assms(2) [of s x] h by simp
  have "evolves w b s1 (snd (swap_each f xs s1))" by (rule evolving.each_step [OF assms(2)])
  then have e2: "evolves w b s1 s'" using tl by simp
  note q = quiet_split [OF e1 e2 Cons.prems(2)]
  show ?case using assms(1) [OF h q(1)] Cons.IH [OF tl q(2)] eq by simp
qed simp

lemma empty_sink:
  "swap_pieces w Sink enc allow host verb path loc ps s = (Some (t, []), s') \<Longrightarrow> t = concat (map piece_text ps)"
proof (induction ps arbitrary: s t)
  case (Cons p ps)
  obtain t1 s1 where h: "swap_piece w Sink enc allow host verb path loc p s = (Some (t1, []), s1)"
    and tl: "\<exists>t2. swap_pieces w Sink enc allow host verb path loc ps s1 = (Some (t2, []), s') \<and> t = t1 @ t2"
    using Cons.prems by (auto split: option.splits prod.splits)
  have "t1 = piece_text p"
    using h by (auto simp: swap_piece_def split: piece.splits option.splits prod.splits if_splits)
  then show ?case using Cons.IH tl by auto
qed simp

lemma quiet_json:
  assumes "swap_json_text w host verb path loc text s = (Some t, s')" and "trail s' = trail s"
  shows "t = text"
proof (rule ccontr)
  assume ne: "t \<noteq> text"
  let ?ps = "pieces Plain text" and ?enc = json_string_escape
  obtain r s1 where p1: "swap_pieces w Probe ?enc None host verb path loc ?ps s = (r, s1)" by force
  obtain r' s2 where p2: "swap_pieces w Sink ?enc None host verb path loc ?ps s1 = (r', s2)" by force
  obtain new ks where r': "r' = Some (new, ks)" and new: "t = new"
    and b: "fst (audit_batch w ks s2)"
      "s' = fold (\<lambda>(_, _, aid). record_approved aid) ks (snd (audit_batch w ks s2))"
    using assms(1) ne p1 p2 by (auto simp: swap_json_text_def Let_def split: option.splits prod.splits if_splits bool.splits)
  have tr: "trail s1 = trail s" "trail s2 = trail s1"
    using trail_quiet_pass [of Probe w ?enc None host verb path loc ?ps s]
      trail_quiet_pass [of Sink w ?enc None host verb path loc ?ps s1] p1 p2 by simp_all
  have "ks \<noteq> []" using empty_sink [of w ?enc None host verb path loc ?ps s1] p2 r' ne new pieces_spell by auto
  moreover have "filter is_swapped (map sunk_line ks) = map sunk_line ks"
    by (auto simp: filter_id_conv sunk_line_def)
  ultimately have "trail (snd (audit_batch w ks s2)) \<noteq> trail s2"
    using b(1) by (auto simp: audit_batch_def trail_def tick_def split: if_splits)
  then have "trail s' \<noteq> trail s2" using b(2) by simp
  then show False using assms(2) tr by simp
qed

lemma quiet_field:
  assumes "swap_field (swap_text w allow host verb path loc) kv s = (Some y, s')" and "trail s' = trail s"
  shows "y = kv"
  using assms quiet_text by (auto simp: swap_field_def split: prod.splits)

lemma quiet_texts:
  "swap_each (swap_text w allow host verb path loc) vs s = (Some ys, s') \<Longrightarrow> trail s' = trail s \<Longrightarrow> ys = vs"
  using quiet_each [of "swap_text w allow host verb path loc" "\<lambda>v. v" w 0, OF quiet_text evolving.text_step]
  by simp

lemma quiet_fields:
  "swap_each (swap_field (swap_text w allow host verb path loc)) kvs s = (Some ys, s') \<Longrightarrow> trail s' = trail s \<Longrightarrow>
    ys = kvs"
  using quiet_each [of "swap_field (swap_text w allow host verb path loc)" "\<lambda>v. v" w 0, OF quiet_field
      evolving.field_step [OF evolving.text_step]]
  by simp

lemma quiet_form:
  assumes "swap_form_body w host verb path loc text s = (Some t, s')" and "trail s' = trail s"
  shows "t = text"
proof -
  let ?f = "swap_field (swap_text w None host verb path loc)"
  obtain ps s1 where h: "swap_each ?f (parse_qsl text) s = (Some ps, s1)"
    using assms(1) by (auto simp: swap_form_body_def split: option.splits prod.splits)
  have "evolves w 0 s (snd (swap_each ?f (parse_qsl text) s))"
    by (rule evolving.each_step, rule evolving.field_step, rule evolving.text_step)
  then have e1: "evolves w 0 s s1" by (simp add: h)
  show ?thesis
  proof (cases "ps = parse_qsl text")
    case True
    then have u: "swap_urlencoded w host verb path loc text s1 = (Some t, s')"
      using assms(1) h by (simp add: swap_form_body_def)
    have "evolves w 0 s1 (snd (swap_urlencoded w host verb path loc text s1))" by (rule evolving.urlencoded_step)
    then have "evolves w 0 s1 s'" by (simp add: u)
    then show ?thesis using quiet_urlencoded [OF u] quiet_split(2) [OF e1 _ assms(2)] by simp
  next
    case False
    then have "s1 = s'" using assms(1) h by (simp add: swap_form_body_def)
    then show ?thesis using quiet_fields [OF h] assms(2) False by simp
  qed
qed

lemma quiet_basic:
  assumes "swap_basic_auth w host verb path v s = (Some y, s')" and "trail s' = trail s" shows "y = v"
  using assms quiet_text
  by (auto simp: swap_basic_auth_def split: option.splits prod.splits)

lemma quiet_authorization:
  assumes "swap_authorization w host verb path vals s = (Some ys, s')" and "trail s' = trail s"
  shows "ys = vals"
proof -
  let ?g = "\<lambda>(v, nv) s. if nv = v then swap_text w None host verb path (Some (auth_location v)) v s else (Some nv, s)"
  obtain nvs s1 where h: "swap_each (swap_basic_auth w host verb path) vals s = (Some nvs, s1)"
    and tl: "swap_each ?g (zip vals nvs) s1 = (Some ys, s')"
    using assms(1) by (auto simp: swap_authorization_def split: option.splits prod.splits)
  have "evolves w 0 s (snd (swap_each (swap_basic_auth w host verb path) vals s))"
    by (rule evolving.each_step, rule evolving.basic_step)
  then have e1: "evolves w 0 s s1" by (simp add: h)
  have g: "evolves w 0 s (snd (?g x s))" for x s
    using evolving.text_step by (cases x) auto
  have "evolves w 0 s1 (snd (swap_each ?g (zip vals nvs) s1))" by (rule evolving.each_step [OF g])
  then have e2: "evolves w 0 s1 s'" by (simp add: tl)
  note q = quiet_split [OF e1 e2 assms(2)]
  have nvs: "nvs = vals"
    using quiet_each [of "swap_basic_auth w host verb path" "\<lambda>v. v" w 0, OF quiet_basic evolving.basic_step h q(1)] by simp
  have gq: "y = snd x" if "?g x u = (Some y, u')" "trail u' = trail u" for x u y u'
    using that quiet_text by (cases x) (auto split: if_splits)
  show ?thesis using quiet_each [of ?g snd w 0, OF gq g tl q(2)] nvs by simp
qed

lemma quiet_header:
  assumes "swap_header w host verb path h s = (Some y, s')" and "trail s' = trail s" shows "y = h"
proof -
  obtain key vals where h: "h = (key, vals)" by force
  show ?thesis
    using assms quiet_authorization quiet_texts
    by (auto simp: swap_header_def h Let_def split: if_splits option.splits prod.splits)
qed

lemma quiet_headers:
  "swap_headers w host verb path hs s = (Some ys, s') \<Longrightarrow> trail s' = trail s \<Longrightarrow> ys = hs"
  using quiet_each [of "swap_header w host verb path" "\<lambda>v. v" w 0, OF quiet_header evolving.header_step]
  by (simp add: swap_headers_def)

lemma quiet_segment:
  assumes "swap_segment w host verb path seg s = (Some y, s')" and "trail s' = trail s" shows "y = (seg, False)"
  using assms quiet_text by (auto simp: swap_segment_def split: option.splits prod.splits)

lemma quiet_body:
  assumes "swap_body w host verb path ctype body s = (Some y, s')" and "trail s' = trail s" shows "y = body"
  using assms quiet_json quiet_form quiet_text by (auto simp: swap_body_def split: if_splits)

lemma quiet_request:
  assumes "request w fate srv rq s = (Forward rq' sigs, s')" and "trail s' = trail s"
  shows "rq' = rq"
proof -
  let ?h = "rq_pretty_host rq" and ?v = "rq_verb rq" and ?p = "Some (rq_path rq)"
  let ?s = "s\<lparr>sw_gate := reset_verdicts (sw_gate s), sw_signals := Some []\<rparr>"
  show ?thesis
  proof (cases "host_in_list ?h (sw_hosts s) \<and> check_authority srv (rq_host rq) ?h")
    case False
    then show ?thesis
      using assms(1) refuse_quiet(2) [of w fate rq "warn_if_placeholder w rq ?s"]
      by (auto simp: request_def Let_def split: if_splits)
  next
    case True
    then have run: "swap_request w rq ?s = (Forward rq' sigs, s')" using assms(1) by (simp add: request_def Let_def)
    have quiet: "trail s' = trail ?s" using assms(2) by simp
    obtain hs s1 where h: "swap_headers w ?h ?v ?p (rq_headers rq) ?s = (Some hs, s1)"
      using run by (auto simp: swap_request_def Let_def split: option.splits prod.splits)
    have "evolves w 0 ?s (snd (swap_headers w ?h ?v ?p (rq_headers rq) ?s))" by (rule evolving.headers_step)
    then have e1: "evolves w 0 ?s s1" by (simp add: h)
    show ?thesis
    proof (cases "w_inference w")
      case True
      then have "rq' = rq\<lparr>rq_headers := hs\<rparr>" "trail s1 = trail ?s"
        using run h quiet by (auto simp: swap_request_def Let_def stash_approval_signal_def)
      then show ?thesis using quiet_headers [OF h] by simp
    next
      case False
      let ?q = "swap_each (swap_field (swap_text w None ?h ?v ?p (Some In_Query))) (rq_query rq)"
      let ?sg = "swap_each (swap_segment w ?h ?v ?p) (str_split CHR ''/'' (raw_path (rq_path rq)))"
      obtain new_q s2 where q: "?q s1 = (Some new_q, s2)"
        using run h False by (auto simp: swap_request_def Let_def split: option.splits prod.splits)
      obtain segs s3 where sg: "?sg s2 = (Some segs, s3)"
        using run h False q by (auto simp: swap_request_def Let_def split: option.splits prod.splits)
      obtain body s4 where bd: "swap_body w ?h ?v ?p (content_type hs) (rq_content rq) s3 = (Some body, s4)"
        using run h False q sg by (auto simp: swap_request_def Let_def split: option.splits prod.splits)
      have "evolves w 0 s1 (snd (?q s1))"
        by (rule evolving.each_step, rule evolving.field_step, rule evolving.text_step)
      then have e2: "evolves w 0 s1 s2" by (simp add: q)
      have "evolves w 0 s2 (snd (?sg s2))" by (rule evolving.each_step, rule evolving.segment_step)
      then have e3: "evolves w 0 s2 s3" by (simp add: sg)
      have "evolves w 0 s3 (snd (swap_body w ?h ?v ?p (content_type hs) (rq_content rq) s3))"
        by (rule evolving.body_step)
      then have e4: "evolves w 0 s3 s4" by (simp add: bd)
      have rq': "rq' = rq\<lparr>rq_headers := hs, rq_path := new_target rq new_q segs, rq_content := body\<rparr>"
        and tr: "trail s4 = trail ?s"
        using run h False q sg bd quiet by (auto simp: swap_request_def Let_def stash_approval_signal_def)
      note t3 = quiet_split [OF evolves_trans [OF evolves_trans [OF e1 e2] e3] e4 tr]
      note t2 = quiet_split [OF evolves_trans [OF e1 e2] e3 t3(1)]
      note t1 = quiet_split [OF e1 e2 t2(1)]
      have "hs = rq_headers rq" by (rule quiet_headers [OF h t1(1)])
      moreover have "new_q = rq_query rq" by (rule quiet_fields [OF q t1(2)])
      moreover have "segs = map (\<lambda>g. (g, False)) (str_split CHR ''/'' (raw_path (rq_path rq)))"
        using quiet_each [of "swap_segment w ?h ?v ?p" "\<lambda>g. (g, False)" w 0, OF quiet_segment evolving.segment_step sg t2(2)] .
      moreover have "body = rq_content rq" by (rule quiet_body [OF bd t3(2)])
      ultimately show ?thesis by (simp add: rq' new_target_def Let_def list_ex_iff)
    qed
  qed
qed

text \<open>
  C10: Nothing leaves the proxy changed without a line in the log. A request the hook forwards after
  writing no \<open>swapped=\<close> line is forwarded exactly as it came: headers, path with its query, and body.
\<close>

theorem unlogged_request_unchanged:
  assumes "request w fate srv rq s = (Forward rq' sigs, s')" and "trail s' = trail s"
  shows "rq' = rq"
  by (rule quiet_request [OF assms])

subsection \<open>An example request\<close>

definition sample_http :: "string \<Rightarrow> http" where
  "sample_http v = \<lparr>rq_pretty_host = ''api.github.com'', rq_host = ''api.github.com'', rq_verb = Some ''GET'',
     rq_path = ''/x'', rq_headers = [(''Authorization'', [v])], rq_query = [], rq_content = []\<rparr>"

definition sample_conn :: server_conn where
  "sample_conn = \<lparr>address = None, pinned = None, conn_error = None, authority_host = Some ''api.github.com''\<rparr>"

definition sample_request :: "string \<Rightarrow> outcome \<times> swap" where
  "sample_request v = request sample_surroundings Scan_Completes sample_conn (sample_http v) sample_swap"

lemma sample_request_swapped:
  "fst (sample_request ''Bearer hsurr:gh'') = Forward (sample_http ''Bearer s3cret'') []"
  "trail (snd (sample_request ''Bearer hsurr:gh'')) = [Swapped ''api.github.com'' ''hsurr:gh'']"
  by code_simp+


lemma sample_request_plain: "fst (sample_request ''Bearer x'') = Forward (sample_http ''Bearer x'') []"
    "trail (snd (sample_request ''Bearer x'')) = []"
  by code_simp+

lemma unlogged_request_unchanged_witness:
  "\<exists>rq' sigs. fst (sample_request ''Bearer x'') = Forward rq' sigs \<and> rq' = sample_http ''Bearer x''"
proof -
  have run: "sample_request ''Bearer x'' = (Forward (sample_http ''Bearer x'') [], snd (sample_request ''Bearer x''))"
    using sample_request_plain(1) prod.collapse [of "sample_request ''Bearer x''"] by metis
  have "trail (snd (sample_request ''Bearer x'')) = trail sample_swap"
    using sample_request_plain(2) by (simp add: trail_def sample_swap_def)
  then show ?thesis
    using unlogged_request_unchanged [OF run [unfolded sample_request_def]] run by (metis fst_conv sample_request_def)
qed

end
