(* ===== verification/Swap_Hook_Run.thy ===== *)
theory Swap_Hook_Run
  imports Swap_Hook_Safety
begin

section \<open>Configuration over time, scope and encoding of the hooks\<close>

text \<open>
  Properties of the hooks that need more than one load or look at what the substituted text becomes
  in the message: the smoke-host list, the reload gate, the parts of a request that are never
  touched, and the encoders around a value.
\<close>

subsection \<open>The smoke hosts\<close>

lemma smoke_seen_fold:
  "set (fold (\<lambda>h seen. if h \<in> set seen then seen else seen @ [h]) hs seen) = set seen \<union> set hs"
  by (induction hs arbitrary: seen) auto

lemma load_smoke_facts:
  fixes f :: text_file
  shows "set (sw_smoke_seen s) \<union> set (load_hosts f) = set (sw_smoke_seen (load_smoke_hosts f secrets s))"
    and "sw_smoke_seen s \<noteq> [] \<Longrightarrow> load_hosts f = [] \<Longrightarrow> sw_poisoned (load_smoke_hosts f secrets s)"
    and "load_hosts f \<noteq> [] \<Longrightarrow> \<not> sw_poisoned (load_smoke_hosts f secrets s)"
  using smoke_seen_fold [of "load_hosts f" "sw_smoke_seen s"]
  by (auto simp: load_smoke_hosts_def Let_def)

definition run_loads :: "(disk_files \<times> stamps) list \<Rightarrow> addon \<Rightarrow> addon" where
  "run_loads ds a = fold (\<lambda>(d, st). load d st) ds a"

lemma load_smoke [simp]:
  "sw_smoke_seen (ad_swap (load d st a))
     = sw_smoke_seen (load_smoke_hosts (df_smoke d) (load_secrets (df_secrets d)) (ad_swap a))"
  "sw_poisoned (ad_swap (load d st a))
     = sw_poisoned (load_smoke_hosts (df_smoke d) (load_secrets (df_secrets d)) (ad_swap a))"
  by (simp_all add: load_def Let_def)

lemma run_loads_snoc [simp]: "run_loads (ds @ [(d, st)]) a = load d st (run_loads ds a)"
  by (simp add: run_loads_def)

lemma run_loads_seen:
  "set (sw_smoke_seen (ad_swap (run_loads ds a)))
     = set (sw_smoke_seen (ad_swap a)) \<union> (\<Union>(d, st) \<in> set ds. set (load_hosts (df_smoke d)))"
proof (induction ds rule: rev_induct)
  case (snoc x ds)
  obtain d st where x: "x = (d, st)" by (cases x)
  show ?case using snoc load_smoke_facts(1) [of "ad_swap (run_loads ds a)" "df_smoke d"] by (auto simp: x)
qed (simp add: run_loads_def)

text \<open>A poisoned proxy releases nothing.\<close>

lemma poisoned_lines:
  assumes "time_flows w" and "sw_poisoned s" and "request w fate srv rq s = (r, s')"
  shows "trail s' = trail s"
proof -
  obtain lines where l: "trail s' = trail s @ lines"
    "\<forall>l \<in> set lines. line_ok w (now_of w s) (now_of w s') s (rq_pretty_host rq) (rq_verb rq) (Some (rq_path rq)) l"
    using request_lines [OF assms(1,3)] by blast
  have "lines = []"
  proof (rule ccontr)
    assume "lines \<noteq> []"
    then have "hd lines \<in> set lines" by simp
    then show False using l(2) assms(2) by (auto simp: line_ok_def may_release_def)
  qed
  with l(1) show ?thesis by simp
qed


definition smoke_disk :: "text_file \<Rightarrow> disk_files" where
  "smoke_disk f = \<lparr>df_registry = [], df_secrets = [(''smoke-test'', Readable ''x'')], df_hosts = Readable ''api.github.com'',
     df_smoke = f, df_stream = Absent, df_ssrf = Absent, df_deny = Absent\<rparr>"

definition no_stamps :: stamps where
  "no_stamps = ((None, None, None, None, None, None, None), [])"

definition fresh_addon :: addon where
  "fresh_addon = \<lparr>ad_swap = sample_swap, ad_ssrf = \<lparr>deny_hosts = [], deny_nets = [], ssrf_hosts = [], ssrf_nets = []\<rparr>,
     ad_stamps = None, ad_sig = []\<rparr>"

lemma smoke_lines: "load_hosts (Readable ''Echo.test'') = [''echo.test'']" "load_hosts Absent = []"
  by code_simp+


subsection \<open>The reload gate\<close>



subsection \<open>What a hook never touches\<close>

lemma each_pointwise:
  assumes "\<And>x s y s'. f x s = (Some y, s') \<Longrightarrow> P x y" and "swap_each f xs s = (Some ys, s')"
  shows "list_all2 P xs ys"
  using assms(2)
proof (induction xs arbitrary: s ys)
  case (Cons x xs)
  then obtain y s1 zs where "f x s = (Some y, s1)" "swap_each f xs s1 = (Some zs, s')" "ys = y # zs"
    by (auto split: option.splits prod.splits)
  then show ?case using Cons.IH assms(1) by simp
qed simp

definition header_kept :: "string \<times> string list \<Rightarrow> string \<times> string list \<Rightarrow> bool" where
  "header_kept h h' \<longleftrightarrow> fst h' = fst h \<and> (str_lower (fst h) \<in> set never_swap_headers \<longrightarrow> h' = h)"

lemma swap_header_kept: "swap_header w host verb path h s = (Some h', s') \<Longrightarrow> header_kept h h'"
  by (auto simp: swap_header_def header_kept_def Let_def split: prod.splits option.splits if_splits)

lemma swap_headers_kept: "swap_headers w host verb path hs s = (Some hs', s') \<Longrightarrow> list_all2 header_kept hs hs'"
  unfolding swap_headers_def using each_pointwise [of "swap_header w host verb path" header_kept] swap_header_kept
  by blast

lemma request_headers_kept:
  assumes "request w fate srv rq s = (Forward rq' sigs, s')"
  shows "list_all2 header_kept (rq_headers rq) (rq_headers rq')
    \<and> (w_inference w \<longrightarrow> rq' = rq\<lparr>rq_headers := rq_headers rq'\<rparr>)"
proof -
  have refl: "list_all2 header_kept hs hs" for hs by (simp add: list_all2_same header_kept_def)
  show ?thesis
    using assms refl swap_headers_kept
    by (auto dest!: refuse_forwards simp: request_def swap_request_def stash_approval_signal_def Let_def
        split: option.splits list.splits prod.splits if_splits)
qed

text \<open>
  C32: The parts of a request that are out of bounds stay out of bounds. A forwarded request has the
  same header names in the same order, with Referer and Origin as they came; from the inference proxy
  nothing but header values can differ.
\<close>

theorem request_scope:
  assumes "request w fate srv rq s = (Forward rq' sigs, s')"
  shows "map fst (rq_headers rq') = map fst (rq_headers rq)
    \<and> (\<forall>(h, h') \<in> set (zip (rq_headers rq) (rq_headers rq')). str_lower (fst h) \<in> {''referer'', ''origin''} \<longrightarrow> h' = h)
    \<and> (w_inference w \<longrightarrow> rq' = rq\<lparr>rq_headers := rq_headers rq'\<rparr>)"
proof -
  have l: "list_all2 header_kept (rq_headers rq) (rq_headers rq')" using request_headers_kept [OF assms] by blast
  have "map fst hs' = map fst hs" if "list_all2 header_kept hs hs'" for hs hs'
    using that by (induction rule: list_all2_induct) (simp_all add: header_kept_def)
  moreover have "\<forall>(h, h') \<in> set (zip (rq_headers rq) (rq_headers rq')). header_kept h h'"
    using l by (auto simp: list_all2_iff)
  ultimately show ?thesis
    using l request_headers_kept [OF assms] by (fastforce simp: header_kept_def never_swap_headers_def)
qed

lemma request_scope_witness:
  "\<exists>rq'. fst (sample_request ''Bearer hsurr:gh'') = Forward rq' [] \<and> map fst (rq_headers rq') = [''Authorization'']"
proof -
  obtain s' where run: "sample_request ''Bearer hsurr:gh'' = (Forward (sample_http ''Bearer s3cret'') [], s')"
    using sample_request_swapped(1) by (metis prod.collapse)
  show ?thesis using request_scope [OF run [unfolded sample_request_def]] run by (auto simp: sample_http_def)
qed

subsection \<open>Values stay inside their fields\<close>

lemma b64_char_space: "n < 64 \<Longrightarrow> \<not> is_space (b64_char n)"
  by (auto simp: is_space_def Let_def b64_code)

lemma pad_not_space: "\<not> is_space CHR ''=''"
  by (simp add: is_space_def char_code_def)

lemma b64_encode_no_space: "c \<in> set (b64_encode s) \<Longrightarrow> \<not> is_space c"
proof (induction s rule: b64_encode.induct)
  case (1 a b c' s)
  let ?n = "65536 * char_code a + 256 * char_code b + char_code c'"
  have "?n div 262144 < 64" using char_code_less [of a] char_code_less [of b] char_code_less [of c'] by linarith
  then show ?case using 1 b64_char_space by (auto simp: Let_def)
next
  case (2 a b)
  let ?n = "1024 * char_code a + 4 * char_code b"
  have "?n div 4096 < 64" using char_code_less [of a] char_code_less [of b] by linarith
  then show ?case using 2 b64_char_space pad_not_space by (auto simp: Let_def)
next
  case (3 a)
  let ?n = "16 * char_code a"
  have "?n div 64 < 64" using char_code_less [of a] by linarith
  then show ?case using 3 b64_char_space pad_not_space by (auto simp: Let_def)
qed simp

lemma strip_no_space: "(\<And>c. c \<in> set s \<Longrightarrow> \<not> is_space c) \<Longrightarrow> str_strip s = s"
proof -
  assume ns: "\<And>c. c \<in> set s \<Longrightarrow> \<not> is_space c"
  have d: "dropWhile is_space xs = xs" if "set xs \<subseteq> set s" for xs
    using that ns by (cases xs) auto
  show "str_strip s = s" by (simp add: str_strip_def d)
qed

lemma basic_decoded_encode:
  assumes "d \<noteq> []" and "utf8_ok d" shows "basic_decoded (''Basic '' @ b64_encode d) = Some d"
proof -
  have "b64_encode d \<noteq> []" using assms(1) b64_decode_encode [of d] by force
  moreover have "str_strip (b64_encode d) = b64_encode d" by (rule strip_no_space [OF b64_encode_no_space])
  moreover have "str_lower ''Basic'' = ''basic''" by code_simp
  ultimately show ?thesis
    using assms(2) by (simp add: basic_decoded_def before_char_def b64_decode_encode)
qed

text \<open>
  C30: A swapped Basic credential is the swapped pair. When the substitution inside a decoded
  \<open>user:password\<close> changes it, the header that goes out decodes to exactly the changed text, whatever
  characters the secret holds.
\<close>

theorem basic_swap_round_trip:
  assumes "basic_decoded v = Some d"
    and "swap_text w None host verb path (Some (In_Header ''authorization:basic'')) d s = (Some d', s')"
    and "utf8_ok d'" and "d' \<noteq> []"
  shows "\<exists>y. swap_basic_auth w host verb path v s = (Some y, s') \<and> basic_decoded y = Some d'"
  using assms basic_decoded_encode by (simp add: swap_basic_auth_def)

lemma basic_swap_round_trip_witness:
  "\<exists>y s'. swap_basic_auth sample_surroundings ''api.github.com'' (Some ''GET'') (Some ''/x'')
     (''Basic '' @ b64_encode ''u:hsurr:gh'') sample_swap = (Some y, s') \<and> basic_decoded y = Some ''u:s3cret''"
proof -
  have u: "utf8_ok ''u:hsurr:gh''" "utf8_ok ''u:s3cret''" by (simp_all add: utf8_ok_ascii is_ascii_def char_code_def)
  have "fst (swap_text sample_surroundings None ''api.github.com'' (Some ''GET'') (Some ''/x'')
      (Some (In_Header ''authorization:basic'')) ''u:hsurr:gh'' sample_swap) = Some ''u:s3cret''"
    by code_simp
  then obtain s' where "swap_text sample_surroundings None ''api.github.com'' (Some ''GET'') (Some ''/x'')
      (Some (In_Header ''authorization:basic'')) ''u:hsurr:gh'' sample_swap = (Some ''u:s3cret'', s')"
    by (metis prod.collapse)
  from basic_swap_round_trip [OF basic_decoded_encode [OF _ u(1)] this u(2)] show ?thesis by auto
qed

text \<open>
  C29: A swapped form has the fields it had. When the substitution changes a field, the body that goes out
  parses to the same names in the same order, each with its substituted value, whatever
  characters the secrets hold.
\<close>

theorem form_swap_round_trip:
  assumes "swap_each (swap_field (swap_text w None host verb path loc)) (parse_qsl text) s = (Some ps, s')"
    and "ps \<noteq> parse_qsl text" and "\<forall>(k, v) \<in> set ps. utf8_ok k \<and> utf8_ok v"
  shows "\<exists>t. swap_form_body w host verb path loc text s = (Some t, s') \<and> parse_qsl t = ps
    \<and> map fst ps = map fst (parse_qsl text)"
proof -
  have "list_all2 (\<lambda>x y. fst y = fst x) (parse_qsl text) ps"
    by (rule each_pointwise [OF _ assms(1)]) (auto simp: swap_field_def split: prod.splits)
  then have "map fst ps = map fst (parse_qsl text)"
    by (induction rule: list_all2_induct) simp_all
  then show ?thesis using assms parse_qsl_urlencode by (simp add: swap_form_body_def)
qed

lemma form_swap_round_trip_witness:
  "\<exists>t s'. swap_form_body sample_surroundings ''api.github.com'' (Some ''GET'') (Some ''/x'') (Some In_Body)
     ''a=hsurr%3Agh&b='' sample_swap = (Some t, s') \<and> parse_qsl t = [(''a'', ''s3cret''), (''b'', [])]"
proof -
  let ?run = "swap_each (swap_field (swap_text sample_surroundings None ''api.github.com'' (Some ''GET'') (Some ''/x'')
      (Some In_Body))) (parse_qsl ''a=hsurr%3Agh&b='') sample_swap"
  have "fst ?run = Some [(''a'', ''s3cret''), (''b'', [])]" by code_simp
  then obtain s' where run: "?run = (Some [(''a'', ''s3cret''), (''b'', [])], s')" by (metis prod.collapse)
  have "[(''a'', ''s3cret''), (''b'', [])] \<noteq> parse_qsl ''a=hsurr%3Agh&b=''" by code_simp
  moreover have "\<forall>(k, v) \<in> set [(''a'', ''s3cret''), (''b'', [])]. utf8_ok k \<and> utf8_ok v"
    by (simp add: utf8_ok_ascii is_ascii_def char_code_def)
  ultimately show ?thesis using form_swap_round_trip [OF run] by blast
qed

lemma unreserved_not_delim: "\<not> unreserved CHR ''/''" "\<not> unreserved CHR ''?''"
  by (simp_all add: unreserved_def py_eval)

lemma quote_no_delim: "CHR ''/'' \<notin> set (quote s)" "CHR ''?'' \<notin> set (quote s)"
proof -
  have hex: "hex_digit n \<noteq> CHR ''/''" "hex_digit n \<noteq> CHR ''?''" if "n < 16" for n
    using hex_digit_code [OF that] by (auto simp: char_code_def split: if_splits)
  have "char_code c div 16 < 16" for c using char_code_less [of c] by linarith
  then have "CHR ''/'' \<notin> set (pct_encode c)" "CHR ''?'' \<notin> set (pct_encode c)" for c
    using hex(1) [of "char_code c div 16"] hex(1) [of "char_code c mod 16"]
      hex(2) [of "char_code c div 16"] hex(2) [of "char_code c mod 16"]
    by (auto simp: pct_encode_def dest: sym)
  then show "CHR ''/'' \<notin> set (quote s)" "CHR ''?'' \<notin> set (quote s)"
    using unreserved_not_delim by (auto simp: quote_def split: if_splits)
qed

lemma str_split_subset: "x \<in> set (str_split c s) \<Longrightarrow> set x \<subseteq> set s"
  by (induction c s arbitrary: x rule: str_split.induct) (auto split: list.splits if_splits, blast+)

lemma str_join_no_char: "c \<noteq> d \<Longrightarrow> (\<And>x. x \<in> set xs \<Longrightarrow> c \<notin> set x) \<Longrightarrow> c \<notin> set (str_join d xs)"
  by (induction d xs rule: str_join.induct) auto

text \<open>
  C31: A value put into a path stays in its segment. The path that goes out has as many segments as
  the one that came in; those without a released value are byte for byte the same, and the others
  decode to the substituted text.
\<close>

theorem path_segments_confined:
  assumes "swap_each (swap_segment w host verb path) (str_split CHR ''/'' (raw_path (rq_path rq))) s = (Some segs, s')"
  shows "list_all2 (\<lambda>old new. new = old \<or> (\<exists>d. new = quote d \<and> d \<noteq> unquote old \<and> (utf8_ok d \<longrightarrow> unquote new = d)))
    (str_split CHR ''/'' (raw_path (rq_path rq))) (str_split CHR ''/'' (raw_path (new_target rq new_q segs)))"
proof -
  let ?old = "str_split CHR ''/'' (raw_path (rq_path rq))"
  let ?P = "\<lambda>old new. (\<not> snd new \<longrightarrow> fst new = old) \<and> (fst new = old \<or> (\<exists>d. fst new = quote d \<and> d \<noteq> unquote old \<and> (utf8_ok d \<longrightarrow> unquote (fst new) = d)))"
  have pt: "list_all2 ?P ?old segs"
    by (rule each_pointwise [OF _ assms]) (auto simp: swap_segment_def unquote_quote split: option.splits prod.splits if_splits)
  then have goal: "list_all2 (\<lambda>old new. new = old \<or> (\<exists>d. new = quote d \<and> d \<noteq> unquote old \<and> (utf8_ok d \<longrightarrow> unquote new = d)))
      ?old (map fst segs)"
    unfolding list_all2_map2 by (rule list_all2_mono) blast
  have old_ok: "CHR ''/'' \<notin> set x \<and> CHR ''?'' \<notin> set x" if "x \<in> set ?old" for x
  proof -
    have q: "CHR ''?'' \<notin> set (raw_path (rq_path rq))" by (simp add: raw_path_def)
    have "set x \<subseteq> set (raw_path (rq_path rq))"
      using that by (rule str_split_subset)
    then show ?thesis using q str_split_parts that by auto
  qed
  have "\<forall>x \<in> set (map fst segs). CHR ''/'' \<notin> set x \<and> CHR ''?'' \<notin> set x"
  proof
    fix x assume "x \<in> set (map fst segs)"
    then obtain i where "i < length segs" "x = fst (segs ! i)" by (auto simp: in_set_conv_nth)
    then have "?P (?old ! i) (segs ! i)" "?old ! i \<in> set ?old" using pt by (auto simp: list_all2_conv_all_nth)
    then show "CHR ''/'' \<notin> set x \<and> CHR ''?'' \<notin> set x"
      using old_ok quote_no_delim \<open>x = fst (segs ! i)\<close> by metis
  qed
  then have new_ok: "\<And>x. x \<in> set (map fst segs) \<Longrightarrow> CHR ''/'' \<notin> set x \<and> CHR ''?'' \<notin> set x" by blast
  have ne: "map fst segs \<noteq> []" using pt by (auto dest: list_all2_lengthD)
  have same: "map fst segs = ?old" if "\<not> list_ex snd segs"
    using pt that by (induction rule: list_all2_induct) auto
  have "raw_path (new_target rq new_q segs) = str_join CHR ''/'' (map fst segs)"
  proof (cases "list_ex snd segs")
    case True
    have "CHR ''?'' \<notin> set (str_join CHR ''/'' (map fst segs))"
      using new_ok by (intro str_join_no_char) auto
    then show ?thesis using True by (auto simp: new_target_def Let_def raw_path_def before_char_append before_char_no_sep)
  next
    case False
    then have "str_join CHR ''/'' (map fst segs) = raw_path (rq_path rq)" using same by simp
    moreover have "raw_path (raw_path (rq_path rq) @ r) = raw_path (rq_path rq)" if "r = [] \<or> hd r = CHR ''?''" for r
    proof -
      have "CHR ''?'' \<notin> set (raw_path (rq_path rq))" by (simp add: raw_path_def)
      then show ?thesis using that by (cases r) (auto simp: raw_path_def before_char_append before_char_no_sep)
    qed
    ultimately show ?thesis using False by (auto simp: new_target_def Let_def) (metis append_Nil2)+
  qed
  then have "str_split CHR ''/'' (raw_path (new_target rq new_q segs)) = map fst segs"
    using new_ok ne by (simp add: str_split_join)
  then show ?thesis using goal by simp
qed

definition sample_path_request :: http where
  "sample_path_request = (sample_http ''Bearer x'')\<lparr>rq_path := ''/a%20b/hsurr:gh?q=1''\<rparr>"

lemma path_segments_confined_witness:
  "\<exists>segs. length (str_split CHR ''/'' (raw_path (new_target sample_path_request [] segs))) = 3
     \<and> map fst segs = [[], ''a%20b'', ''s3cret'']"
proof -
  let ?run = "swap_each (swap_segment sample_surroundings ''api.github.com'' (Some ''GET'') (Some ''/x''))
    (str_split CHR ''/'' (raw_path (rq_path sample_path_request))) sample_swap"
  have "fst ?run = Some [([], False), (''a%20b'', False), (''s3cret'', True)]" by code_simp
  then obtain s' where run: "?run = (Some [([], False), (''a%20b'', False), (''s3cret'', True)], s')"
    by (metis prod.collapse)
  have "length (str_split CHR ''/'' (raw_path (rq_path sample_path_request))) = 3" by code_simp
  then show ?thesis
    using list_all2_lengthD [OF path_segments_confined [OF run, of "[]"]]
    by (intro exI [of _ "[([], False), (''a%20b'', False), (''s3cret'', True)]"]) simp
qed

subsection \<open>WebSocket messages\<close>

text \<open>
  C33: Insertion into a WebSocket needs the operator's opt-in. When the hook forwards a message other than
  the one that came, the host is on the allowlist and on the list of stream hosts, the connection
  leads to it, the proxy is not the inference one, the message is text within the size limit, and the
  log has gained a line for it.
\<close>

theorem websocket_swap_gated:
  assumes "websocket_message w srv req_host host msg s = (Some msg', s')" and "msg' \<noteq> msg"
  shows "host_in_list host (sw_hosts s) \<and> host_in_list host (sw_stream_hosts s)
    \<and> check_authority srv req_host host \<and> \<not> w_inference w
    \<and> (\<exists>m. msg = Some m \<and> \<not> ws_binary m \<and> length (ws_content m) \<le> max_swap_body)
    \<and> trail s' \<noteq> trail s"
proof -
  let ?s = "s\<lparr>sw_gate := reset_verdicts (sw_gate s), sw_signals := None\<rparr>"
  obtain m where msg: "msg = Some m"
    using assms by (cases msg) (auto simp: websocket_message_def Let_def split: if_splits)
  obtain t where m: "msg = Some m" "msg' = Some (m\<lparr>ws_content := t\<rparr>)"
    and g: "host_in_list host (sw_hosts s)" "host_in_list host (sw_stream_hosts s)"
      "check_authority srv req_host host" "\<not> w_inference w" "\<not> ws_binary m" "length (ws_content m) \<le> max_swap_body"
    and run: "swap_text w None host None None (Some In_Body) (ws_content m) ?s = (Some t, s')"
    using assms msg by (auto simp: websocket_message_def Let_def host_allows_stream_def not_less
        split: if_splits option.splits prod.splits)
  have "trail s' \<noteq> trail ?s" using quiet_text [OF run] assms(2) m by auto
  then show ?thesis using m g by simp
qed

lemma websocket_swap_gated_witness:
  "\<exists>msg' s'. websocket_message sample_surroundings sample_conn ''api.github.com'' ''api.github.com''
     (Some \<lparr>ws_binary = False, ws_content = ''hsurr:gh''\<rparr>) (sample_swap\<lparr>sw_stream_hosts := [''api.github.com'']\<rparr>)
     = (Some msg', s') \<and> trail s' \<noteq> []"
proof -
  let ?s = "sample_swap\<lparr>sw_stream_hosts := [''api.github.com'']\<rparr>"
  let ?m = "Some \<lparr>ws_binary = False, ws_content = ''hsurr:gh''\<rparr>"
  let ?run = "websocket_message sample_surroundings sample_conn ''api.github.com'' ''api.github.com'' ?m ?s"
  let ?t = "swap_text sample_surroundings None ''api.github.com'' None None (Some In_Body) ''hsurr:gh''
      (?s\<lparr>sw_gate := reset_verdicts (sw_gate ?s), sw_signals := None\<rparr>)"
  have "fst ?t = Some ''s3cret''" by code_simp
  moreover have "check_authority sample_conn ''api.github.com'' ''api.github.com''" "utf8_ok ''hsurr:gh''" by code_simp+
  ultimately have "fst ?run = Some (Some \<lparr>ws_binary = False, ws_content = ''s3cret''\<rparr>)"
    using sample_host
    by (cases ?t) (simp add: websocket_message_def Let_def host_allows_stream_def sample_swap_def sample_surroundings_def
        max_swap_body_def)
  then obtain s' where run: "?run = (Some (Some \<lparr>ws_binary = False, ws_content = ''s3cret''\<rparr>), s')"
    by (metis prod.collapse)
  have "trail ?s = []" by (simp add: trail_def sample_swap_def)
  then show ?thesis using websocket_swap_gated [OF run] run by auto
qed

end
