(* ===== verification/Swap_Response.thy ===== *)
theory Swap_Response
  imports Swap_Hooks
begin

section \<open>Responses (proxy/swap_addon.py)\<close>

text \<open>
  \<open>responseheaders\<close> and \<open>response\<close>: the gate on redirects and refreshes, the scrubbing of headers
  and body, the client-visible approval headers and the refusal of streams. A header map is a list
  of keys, each with all its values, as in \<open>Swap_Hooks\<close>; no key occurs twice, in any case. What
  mitmproxy makes of a body is a parameter: its length on the wire and after the content encoding
  is taken off, its text, and the headers its body setter leaves.
\<close>

subsection \<open>Messages\<close>

type_synonym headers = "(string \<times> string list) list"

definition same_key :: "string \<Rightarrow> string \<Rightarrow> bool" where
  "same_key k k' = (str_lower k = str_lower k')"

definition get_all :: "string \<Rightarrow> headers \<Rightarrow> string list" where
  "get_all k hs = concat (map snd (filter (\<lambda>(k', _). same_key k k') hs))"

definition set_all :: "string \<Rightarrow> string list \<Rightarrow> headers \<Rightarrow> headers" where
  "set_all k vs hs =
     (if list_ex (\<lambda>(k', _). same_key k k') hs
      then map (\<lambda>(k', ws). if same_key k k' then (k', vs) else (k', ws)) hs else hs @ [(k, vs)])"

definition del_header :: "string \<Rightarrow> headers \<Rightarrow> headers" where
  "del_header k hs = filter (\<lambda>(k', _). \<not> same_key k k') hs"

text \<open>The content is \<open>None\<close> when its encoding is invalid, the text when the charset does not fit.\<close>

record response =
  rs_status :: nat
  rs_headers :: headers
  rs_wire :: nat
  rs_content :: "nat option"
  rs_text :: "string option"

record text_codec =
  tc_wire :: "string \<Rightarrow> nat"
  tc_content :: "string \<Rightarrow> nat"
  tc_headers :: "string \<Rightarrow> headers \<Rightarrow> headers"

datatype delivery = Deliver response | Kill response | Raise response

subsection \<open>Redirects and refreshes\<close>

definition redirect_statuses :: "nat list" where
  "redirect_statuses = [301, 302, 303, 307, 308]"

definition redirect_leak_target :: "string list \<Rightarrow> triple list \<Rightarrow> response \<Rightarrow> string option" where
  "redirect_leak_target hosts ts rs =
     (if rs_status rs \<notin> set redirect_statuses then None
      else nav_leak_target hosts ts (get_all ''location'' (rs_headers rs)))"

definition refresh_leak_target :: "string list \<Rightarrow> triple list \<Rightarrow> response \<Rightarrow> string option" where
  "refresh_leak_target hosts ts rs =
     nav_leak_target hosts ts (List.map_filter refresh_url (get_all ''refresh'' (rs_headers rs)))"

definition redirect_killed_location :: string where
  "redirect_killed_location = ''hsurr:redirect-secret-refused''"

definition refresh_neutralized_value :: string where
  "refresh_neutralized_value = ''hsurr:refresh-secret-refused''"

definition neutralize_headers :: "string option \<Rightarrow> string option \<Rightarrow> headers \<Rightarrow> headers" where
  "neutralize_headers leak refresh hs =
     (let hs = (if leak \<noteq> None then set_all ''location'' [redirect_killed_location] hs else hs)
      in if refresh \<noteq> None then set_all ''refresh'' [refresh_neutralized_value] hs else hs)"

subsection \<open>Headers\<close>

definition credential_of :: "string \<Rightarrow> string" where
  "credential_of ph = (case str_split CHR '':'' ph of _ # n # _ \<Rightarrow> n | _ \<Rightarrow> ph)"

definition em_dash :: string where "em_dash = [CHR 0xE2, CHR 0x80, CHR 0x94]"

definition cookie_note :: "string \<Rightarrow> string" where
  "cookie_note name =
     ''credential='' @ name @ '': the scrubbed Set-Cookie stores the placeholder, but the request side ''
     @ ''will not re-swap it into Cookie (no Cookie placement) '' @ em_dash
     @ '' the session will break on the next request''"

text \<open>\<open>_note_set_cookie_scrub_no_cookie_swap\<close>.\<close>

definition note_set_cookie ::
  "surroundings \<Rightarrow> string \<Rightarrow> triple list \<Rightarrow> string list \<Rightarrow> swap \<Rightarrow> swap"
where
  "note_set_cookie w host ts vals s =
     fold (\<lambda>n. audit_note w host ''set-cookie-no-cookie-swap'' (cookie_note n))
       (filter (\<lambda>n. n \<notin> set (sw_cookie_names s))
          (dedup (concat (map (\<lambda>v. map credential_of (matched_names ts v)) vals)))) s"

definition scrub_header ::
  "surroundings \<Rightarrow> string \<Rightarrow> triple list \<Rightarrow> string \<times> string list \<Rightarrow> swap \<Rightarrow> (string \<times> string list) \<times> swap"
where
  "scrub_header w host ts = (\<lambda>(key, vals) s.
     let kl = str_lower key; new_vals = map (scrub_text ts) vals in
     if kl \<in> set unscrubbed_headers then ((key, vals), s)
     else ((key, new_vals),
           if new_vals \<noteq> vals \<and> kl = ''set-cookie'' then note_set_cookie w host ts vals s else s))"

fun scrub_headers ::
  "surroundings \<Rightarrow> string \<Rightarrow> triple list \<Rightarrow> headers \<Rightarrow> swap \<Rightarrow> headers \<times> swap"
where
  "scrub_headers w host ts [] s = ([], s)"
| "scrub_headers w host ts (h # hs) s =
     (let (h', s1) = scrub_header w host ts h s; (hs', s2) = scrub_headers w host ts hs s1 in (h' # hs', s2))"

definition pending_header :: string where "pending_header = ''X-Spark-Approval-Pending''"
definition decision_header :: string where "decision_header = ''X-Spark-Approval-Decision''"

fun signal_text :: "signal \<Rightarrow> string" where
  "signal_text Pending = ''pending''"
| "signal_text Expired = ''expired''"
| "signal_text signal.Denied = ''denied''"
| "signal_text Approved = ''approved''"

fun join_comma :: "string list \<Rightarrow> string" where
  "join_comma [] = []"
| "join_comma [x] = x"
| "join_comma (x # y # ys) = x @ '', '' @ join_comma (y # ys)"

definition pending_ids :: "(string \<times> signal) list \<Rightarrow> string list" where
  "pending_ids sigs = map fst (filter (\<lambda>(_, st). st = Pending) sigs)"

definition decisions :: "(string \<times> signal) list \<Rightarrow> string list" where
  "decisions sigs = map (\<lambda>(aid, st). signal_text st @ '':'' @ aid) (filter (\<lambda>(_, st). st \<noteq> Pending) sigs)"

text \<open>The approval headers: upstream values are removed, the proxy's own are set.\<close>

definition approval_headers :: "(string \<times> signal) list \<Rightarrow> headers \<Rightarrow> headers" where
  "approval_headers sigs hs =
     (let hs = del_header decision_header (del_header pending_header hs);
          hs = (if pending_ids sigs \<noteq> [] then set_all pending_header [join_comma (pending_ids sigs)] hs else hs)
      in if decisions sigs \<noteq> [] then set_all decision_header [join_comma (decisions sigs)] hs else hs)"

definition stream_refusal_reason :: "response \<Rightarrow> string option" where
  "stream_refusal_reason rs =
     (if list_ex (\<lambda>c. contains ''text/event-stream'' (str_lower c)) (get_all ''content-type'' (rs_headers rs))
      then Some ''sse''
      else if rs_status rs = 101 then Some ''protocol-upgrade'' else None)"

text \<open>The checks of the two navigation headers complete, or raise.\<close>

definition note_leak :: "surroundings \<Rightarrow> string \<Rightarrow> triple list \<Rightarrow> string \<Rightarrow> string option \<Rightarrow> swap \<Rightarrow> swap" where
  "note_leak w host ts what leak s =
     (case leak of None \<Rightarrow> s | Some target \<Rightarrow> audit_note w host what (audit_target_host ts target) s)"

definition refuse_stream :: "surroundings \<Rightarrow> string \<Rightarrow> response \<Rightarrow> swap \<Rightarrow> delivery \<times> swap" where
  "refuse_stream w host rs s =
     (case stream_refusal_reason rs of
        None \<Rightarrow> (Deliver rs, s)
      | Some why \<Rightarrow>
          if host_allows_stream host s then (Deliver rs, audit_note w host ''stream-optin'' why s)
          else (Kill rs, audit_note w host ''stream-refused'' why s))"

definition responseheaders ::
  "surroundings \<Rightarrow> bool \<Rightarrow> bool \<Rightarrow> string \<Rightarrow> (string \<times> signal) list \<Rightarrow> response \<Rightarrow> swap \<Rightarrow> delivery \<times> swap"
where
  "responseheaders w redirect_ok refresh_ok host sigs rs s0 =
     (if \<not> host_in_list host (sw_hosts s0) then (Deliver rs, s0)
      else
        let ts = current_triples w s0; s = tick s0; hosts = sw_hosts s;
            leak = redirect_leak_target hosts ts rs; refresh = refresh_leak_target hosts ts rs in
        if \<not> redirect_ok then (Kill rs, audit_note w host ''redirect-secret-refused'' ''check-error'' s)
        else if \<not> refresh_ok then (Kill rs, audit_note w host ''refresh-secret-refused'' ''check-error'' s)
        else
          let (hs, s1) = scrub_headers w host ts (neutralize_headers leak refresh (rs_headers rs)) s;
              s2 = note_leak w host ts ''refresh-secret-refused'' refresh
                     (note_leak w host ts ''redirect-secret-refused'' leak s1)
          in if leak \<noteq> None then (Kill (rs\<lparr>rs_headers := hs\<rparr>), s2)
             else refuse_stream w host (rs\<lparr>rs_headers := approval_headers sigs hs\<rparr>) s2)"

subsection \<open>Bodies\<close>

definition max_scrub_bytes :: nat where "max_scrub_bytes = 5 * 1024 * 1024"

definition bare_content_type :: "string \<Rightarrow> string" where
  "bare_content_type ct = str_lower (str_strip (before_char CHR '';'' ct))"

definition is_scrubbable_content_type :: "string \<Rightarrow> bool" where
  "is_scrubbable_content_type ct =
     (let c = bare_content_type ct in
      c = []
      \<or> list_ex (\<lambda>p. prefix p c) [''text/'', ''application/json'', ''application/javascript'', ''application/xml'',
          ''application/x-www-form-urlencoded'']
      \<or> suffix ''+json'' c \<or> suffix ''+xml'' c)"

definition meta_refresh_types :: "string list" where
  "meta_refresh_types = [''text/html'', ''application/xhtml+xml'']"

text \<open>\<open>resp.text = t\<close>, and the repair of the content length.\<close>

definition put_text :: "text_codec \<Rightarrow> string \<Rightarrow> response \<Rightarrow> response" where
  "put_text tc t rs =
     (let hs = tc_headers tc t (rs_headers rs)
      in rs\<lparr>rs_text := Some t, rs_content := Some (tc_content tc t), rs_wire := tc_wire tc t,
            rs_headers := (if get_all ''content-length'' hs \<noteq> []
              then set_all ''content-length'' [dec_string (tc_content tc t)] hs else hs)\<rparr>)"

text \<open>The page with its refresh tags neutralised, and the refused targets.\<close>

definition checked_page :: "string list \<Rightarrow> triple list \<Rightarrow> string \<Rightarrow> string \<Rightarrow> string \<times> string list" where
  "checked_page hosts ts ct t =
     (if bare_content_type ct \<in> set meta_refresh_types then
        (case neutralize_meta hosts ts t of (t', refused) \<Rightarrow> if refused = [] then (t, []) else (t', refused))
      else (t, []))"

definition response ::
  "surroundings \<Rightarrow> text_codec \<Rightarrow> string \<Rightarrow> response \<Rightarrow> swap \<Rightarrow> delivery \<times> swap"
where
  "response w tc host rs s =
     (let ct = content_type (rs_headers rs) in
      if \<not> host_in_list host (sw_hosts s) then (Deliver rs, s)
      else if \<not> is_scrubbable_content_type ct then (Deliver rs, s)
      else
        let ts = current_triples w s; s1 = tick s in
        case rs_content rs of
          None \<Rightarrow> (Raise rs, s1)
        | Some n \<Rightarrow>
            if max_scrub_bytes < n then (Deliver rs, s1)
            else (case rs_text rs of
                None \<Rightarrow> (Deliver rs, s1)
              | Some t \<Rightarrow>
                  let (page, refused) = checked_page (sw_hosts s) ts ct t;
                      s2 = fold (audit_note w host ''meta-refresh-secret-refused'') refused s1;
                      rs1 = (if refused = [] then rs else put_text tc page rs);
                      new_text = scrub_text ts page
                  in (Deliver (if new_text = page then rs1 else put_text tc new_text rs1), s2)))"

text \<open>The hooks, behind the reload gate.\<close>

definition responseheaders_hook ::
  "stamps \<Rightarrow> disk_files \<Rightarrow> stamps \<Rightarrow> surroundings \<Rightarrow> bool \<Rightarrow> bool \<Rightarrow> string \<Rightarrow> (string \<times> signal) list
    \<Rightarrow> response \<Rightarrow> addon \<Rightarrow> delivery \<times> addon"
where
  "responseheaders_hook seen d st w redirect_ok refresh_ok host sigs rs a =
     (let a1 = maybe_reload seen d st a;
          (r, s) = responseheaders w redirect_ok refresh_ok host sigs rs (ad_swap a1)
      in (r, a1\<lparr>ad_swap := s\<rparr>))"

definition response_hook ::
  "stamps \<Rightarrow> disk_files \<Rightarrow> stamps \<Rightarrow> surroundings \<Rightarrow> text_codec \<Rightarrow> string \<Rightarrow> response \<Rightarrow> addon
    \<Rightarrow> delivery \<times> addon"
where
  "response_hook seen d st w tc host rs a =
     (let a1 = maybe_reload seen d st a; (r, s) = response w tc host rs (ad_swap a1)
      in (r, a1\<lparr>ad_swap := s\<rparr>))"

end
