(* ===== verification/Response_Safety.thy ===== *)
theory Response_Safety
  imports Swap_Response Scrub_Safety Swap_Hook_Safety
begin

section \<open>What responses and refused requests cannot carry\<close>

subsection \<open>The values that are looked for\<close>

text \<open>A stored value, with its placeholder, that the registry does not opt out and that is long enough.\<close>

definition guarded :: "swap \<Rightarrow> string \<Rightarrow> string \<Rightarrow> bool" where
  "guarded s v ph =
     (let reg = g_registry (sw_gate s) in
      list_ex (\<lambda>(name, val). name \<noteq> ''smoke-test'' \<and>
        (case val of
           Single u \<Rightarrow> u = v \<and> ph = canonical name None \<and> scrubbable_entry reg name None v
         | Multi es \<Rightarrow> list_ex (\<lambda>(e, u). e \<noteq> ''totp'' \<and> u = v \<and> ph = canonical name (Some e)
             \<and> scrubbable_entry reg name (Some e) v) es)) (sw_secrets s))"

lemma guarded_triple: "guarded s v ph \<Longrightarrow> (v, ph, False) \<in> set (current_triples w s)"
proof -
  assume "guarded s v ph"
  then obtain name val where nv: "(name, val) \<in> set (sw_secrets s)" "name \<noteq> ''smoke-test''"
    and val: "case val of
           Single u \<Rightarrow> u = v \<and> ph = canonical name None \<and> scrubbable_entry (g_registry (sw_gate s)) name None v
         | Multi es \<Rightarrow> list_ex (\<lambda>(e, u). e \<noteq> ''totp'' \<and> u = v \<and> ph = canonical name (Some e)
             \<and> scrubbable_entry (g_registry (sw_gate s)) name (Some e) v) es"
    by (auto simp: guarded_def Let_def list_ex_iff)
  have "(v, ph, False) \<in> set (credential_triples (g_registry (sw_gate s)) (w_now w (sw_tick s)) (name, val))"
    using nv(2) val
    by (cases val) (force simp: credential_triples_def value_triples_def Let_def list_ex_iff)+
  then show ?thesis using nv(1) by (force simp: current_triples_def secret_replacements_def)
qed

lemma canonical_nonempty [simp]: "canonical n e \<noteq> []"
  by (simp add: canonical_def)

lemma totp_code_nonempty [simp]: "totp_code seed t \<noteq> Some []"
  using totp_digits [of seed t "[]"] by auto

lemma totp_triples_shape: "(v, ph, b) \<in> set (totp_triples name seed now) \<Longrightarrow> v \<noteq> [] \<and> ph \<noteq> []"
  by (auto simp: totp_triples_def map_filter_simps split: option.splits)

lemma value_triples_shape: "(v, ph, b) \<in> set (value_triples reg name e u) \<Longrightarrow> v \<noteq> [] \<and> ph \<noteq> []"
  by (auto simp: value_triples_def scrubbable_entry_def Let_def split: if_splits)

lemma credential_triples_shape:
  assumes "(v, ph, b) \<in> set (credential_triples reg now c)" shows "v \<noteq> [] \<and> ph \<noteq> []"
proof -
  obtain name val where c: "c = (name, val)" by (cases c)
  show ?thesis
  proof (cases val)
    case (Single u)
    then have "(v, ph, b) \<in> set (value_triples reg name None u)"
      using assms by (auto simp: credential_triples_def c split: if_splits)
    then show ?thesis by (rule value_triples_shape)
  next
    case (Multi es)
    then show ?thesis
      using assms by (auto simp: credential_triples_def c split: if_splits dest: totp_triples_shape value_triples_shape)
  qed
qed

lemma current_triples_shape: "(v, ph, b) \<in> set (current_triples w s) \<Longrightarrow> v \<noteq> [] \<and> ph \<noteq> []"
  using credential_triples_shape by (fastforce simp: current_triples_def secret_replacements_def)

lemma guarded_nonempty: "guarded s v ph \<Longrightarrow> v \<noteq> []"
  using guarded_triple current_triples_shape by blast

text \<open>A scrubbed text: what is left of the original holds no guarded value.\<close>

definition cleared :: "swap \<Rightarrow> triple list \<Rightarrow> string \<Rightarrow> string \<Rightarrow> bool" where
  "cleared s ts u x =
     (map fst (scrub_traced ts (origins u)) = x \<and>
      (\<forall>v ph b. guarded s v ph \<longrightarrow> kept b \<longrightarrow> sublist b (scrub_traced ts (origins u)) \<longrightarrow> map fst b \<noteq> v))"

lemma scrub_cleared: "cleared s (current_triples w s) u (scrub_text (current_triples w s) u)"
proof -
  let ?ts = "current_triples w s"
  have p: "\<forall>(u, p, b) \<in> set ?ts. p \<noteq> []" using current_triples_shape by fast
  have "map fst b \<noteq> v"
    if "guarded s v ph" "kept b" "sublist b (scrub_traced ?ts (origins u))" for v ph b
    by (rule scrub_no_kept_value [OF guarded_triple [OF that(1)] guarded_nonempty [OF that(1)] p that(2,3)])
  then show ?thesis unfolding cleared_def erase_scrub fst_origins by blast
qed

lemma guarded_absent:
  assumes "matched_names (current_triples w s) x = []" "guarded s v ph" "ph \<noteq> v" shows "\<not> sublist v x"
  using unmatched_absent [OF assms(1) guarded_triple guarded_nonempty assms(3)] assms(2) by blast

lemma guarded_absent_decoded:
  assumes "decode_stage_names (current_triples w s) x = []" "guarded s v ph" "ph \<noteq> v"
  shows "\<not> sublist v ((unquote ^^ k) x) \<and> \<not> sublist v (unquote_plus ((unquote ^^ k) x))"
  using decode_stage_names_Nil [OF assms(1)] guarded_absent assms(2,3) by blast

subsection \<open>Requests to other hosts\<close>

lemma same_config_guarded: "same_config s s' \<Longrightarrow> guarded s' v ph = guarded s v ph"
proof -
  assume "same_config s s'"
  then have "sw_secrets s' = sw_secrets s" "g_registry (sw_gate s') = g_registry (sw_gate s)"
    by (simp_all add: same_config_def)
  then show ?thesis by (simp only: guarded_def)
qed

lemma decode_stage_names_empty [simp]: "decode_stage_names ts [] = []"
proof -
  have "unquote [] = []" "unquote_plus [] = []" by (simp_all add: unquote_plus_def unquote_def)
  then have "decode_stages [] [] = [[]]"
    by (subst decode_stages.simps, simp, subst decode_stages.simps, simp)
  then show ?thesis using \<open>unquote_plus [] = []\<close> by (simp add: decode_stage_names_def matched_names_def)
qed

lemma request_secret_names_Nil:
  assumes "request_secret_names w ts rq s = ([], s')"
  shows "matched_names ts (rq_pretty_host rq) = []" "decode_stage_names ts (rq_path rq) = []"
    "h \<in> set (rq_headers rq) \<Longrightarrow> header_names ts h = []"
    "length (rq_content rq) \<le> max_swap_body \<Longrightarrow> utf8_ok (rq_content rq) \<Longrightarrow> decode_stage_names ts (rq_content rq) = []"
  using assms by (auto simp: request_secret_names_def Let_def split: if_splits)

lemma header_names_Nil:
  assumes "header_names ts (k, vs) = []" "str_lower k \<notin> set unscrubbed_headers" "x \<in> set vs"
  shows "matched_names ts x = []"
  using assms by (auto simp: header_names_def Let_def)

lemma forwarded_unmatched:
  assumes "request w fate srv rq s = (Forward rq' sigs, s')" "\<not> host_in_list (rq_pretty_host rq) (sw_hosts s)"
  obtains s1 s2 where "request_secret_names w (current_triples w s1) rq s2 = ([], s')" "same_config s s1"
proof -
  let ?s = "s\<lparr>sw_gate := reset_verdicts (sw_gate s), sw_signals := Some []\<rparr>"
  let ?s1 = "warn_if_placeholder w rq ?s"
  have "same_config s ?s" by (simp add: same_config_def reset_verdicts_def)
  moreover have "same_config ?s ?s1" using warn_quiet(1) [of w 0 ?s rq] by (simp add: evolves_def)
  ultimately have sc: "same_config s ?s1" by (simp add: same_config_def)
  have "refuse_secrets w fate rq ?s1 = (Forward rq' sigs, s')"
    using assms by (simp add: request_def Let_def)
  then have "request_secret_names w (current_triples w ?s1) rq (tick ?s1) = ([], s')"
    by (auto simp: refuse_secrets_def Let_def split: scan_fate.splits list.splits prod.splits)
  then show ?thesis using sc that by blast
qed

definition decodings_free :: "string \<Rightarrow> string \<Rightarrow> bool" where
  "decodings_free v x \<longleftrightarrow> (\<forall>k. \<not> sublist v ((unquote ^^ k) x) \<and> \<not> sublist v (unquote_plus ((unquote ^^ k) x)))"

lemma guarded_decodings:
  "decode_stage_names (current_triples w s) x = [] \<Longrightarrow> guarded s v ph \<Longrightarrow> ph \<noteq> v \<Longrightarrow> decodings_free v x"
  using guarded_absent_decoded by (simp add: decodings_free_def)


end
