(* ===== verification/Response_Run.thy ===== *)
theory Response_Run
  imports Response_Safety
begin

section \<open>Properties of the response hooks\<close>

subsection \<open>Header maps\<close>

lemma get_all_append [simp]: "get_all k (a @ b) = get_all k a @ get_all k b"
  by (simp add: get_all_def)

lemma get_all_Cons: "get_all k ((k', vs) # hs) = (if same_key k k' then vs else []) @ get_all k hs"
  by (simp add: get_all_def)

lemma get_all_Nil [simp]: "get_all k [] = []"
  by (simp add: get_all_def)

lemma in_get_all: "(k, vs) \<in> set hs \<Longrightarrow> x \<in> set vs \<Longrightarrow> x \<in> set (get_all k hs)"
  by (force simp: get_all_def same_key_def)

lemma get_all_del [simp]:
  "get_all k (del_header k' hs) = (if same_key k k' then [] else get_all k hs)"
  by (induction hs) (auto simp: del_header_def get_all_Cons same_key_def)

lemma set_all_absent: "list_ex (\<lambda>(k', _). same_key k k') hs = False \<Longrightarrow> set_all k vs hs = hs @ [(k, vs)]"
  by (simp add: set_all_def)

lemma set_all_deleted: "set_all k vs (del_header k hs) = del_header k hs @ [(k, vs)]"
  by (rule set_all_absent) (auto simp: del_header_def list_ex_iff)

lemma del_header_append [simp]: "del_header k (a @ b) = del_header k a @ del_header k b"
  by (simp add: del_header_def)

lemma del_header_commute: "del_header k (del_header k' hs) = del_header k' (del_header k hs)"
  by (simp add: del_header_def conj_commute)

lemma set_all_values: "x \<in> set (get_all k (set_all k vs hs)) \<Longrightarrow> x \<in> set vs"
proof (cases "list_ex (\<lambda>(k', _). same_key k k') hs")
  case True
  assume "x \<in> set (get_all k (set_all k vs hs))"
  then show ?thesis using True by (auto simp: get_all_def set_all_def split: if_splits)
next
  case False
  assume "x \<in> set (get_all k (set_all k vs hs))"
  moreover have "get_all k hs = []" using False by (auto simp: get_all_def list_ex_iff filter_empty_conv)
  ultimately show ?thesis using False by (simp add: set_all_def get_all_Cons same_key_def)
qed

lemma set_all_member: "(k', us) \<in> set (set_all k vs hs) \<Longrightarrow> (k', us) \<in> set hs \<or> us = vs \<and> same_key k k'"
  by (auto simp: set_all_def same_key_def split: if_splits)

text \<open>The approval headers are appended to a map that has neither.\<close>

definition approval_rows :: "(string \<times> signal) list \<Rightarrow> headers" where
  "approval_rows sigs =
     (if pending_ids sigs \<noteq> [] then [(pending_header, [join_comma (pending_ids sigs)])] else [])
     @ (if decisions sigs \<noteq> [] then [(decision_header, [join_comma (decisions sigs)])] else [])"

lemma approval_keys_differ: "\<not> same_key pending_header decision_header" "\<not> same_key decision_header pending_header"
  by (simp_all add: same_key_def pending_header_def decision_header_def str_lower_def py_eval)

lemma same_key_refl [simp]: "same_key k k"
  by (simp add: same_key_def)

lemma approval_headers_rows:
  "approval_headers sigs hs = del_header decision_header (del_header pending_header hs) @ approval_rows sigs"
proof -
  let ?d = "del_header decision_header (del_header pending_header hs)"
  have p: "set_all pending_header vs ?d = ?d @ [(pending_header, vs)]" for vs
    using set_all_deleted [of pending_header vs "del_header decision_header hs"]
    by (simp add: del_header_commute [of decision_header])
  have d: "set_all decision_header vs (?d @ r) = ?d @ r @ [(decision_header, vs)]"
    if "r = [] \<or> (\<exists>us. r = [(pending_header, us)])" for vs r
  proof -
    have "del_header decision_header (?d @ r) = ?d @ r"
      using that approval_keys_differ by (auto simp: del_header_def)
    then show ?thesis using set_all_deleted [of decision_header vs "?d @ r"] by simp
  qed
  show ?thesis using p d [of "[]"] d [of "[(pending_header, [join_comma (pending_ids sigs)])]"]
    by (simp add: approval_headers_def approval_rows_def Let_def)
qed

subsection \<open>A delivered header block\<close>

lemma quiet_config [simp]:
  "sw_hosts (audit_note w h a b s) = sw_hosts s" "sw_stream_hosts (audit_note w h a b s) = sw_stream_hosts s"
  "sw_hosts (tick s) = sw_hosts s" "sw_stream_hosts (tick s) = sw_stream_hosts s"
  by (simp_all add: audit_note_def audit_write_def tick_def)

lemma note_leak_stream [simp]: "sw_stream_hosts (note_leak w h ts x l s) = sw_stream_hosts s"
  by (simp add: note_leak_def split: option.split)

lemma note_set_cookie_stream [simp]: "sw_stream_hosts (note_set_cookie w h ts vs s) = sw_stream_hosts s"
proof -
  have "sw_stream_hosts (fold (\<lambda>n. audit_note w h x (f n)) ns t) = sw_stream_hosts t" for x f ns and t :: swap
    by (induction ns arbitrary: t) simp_all
  then show ?thesis by (simp add: note_set_cookie_def)
qed

definition scrub_row :: "triple list \<Rightarrow> string \<times> string list \<Rightarrow> string \<times> string list" where
  "scrub_row ts = (\<lambda>(k, vs). (k, if str_lower k \<in> set unscrubbed_headers then vs else map (scrub_text ts) vs))"

lemma scrub_header_row:
  "fst (scrub_header w host ts h s) = scrub_row ts h"
  "sw_stream_hosts (snd (scrub_header w host ts h s)) = sw_stream_hosts s"
  by (simp_all add: scrub_header_def scrub_row_def Let_def split: prod.split)

lemma scrub_headers_rows:
  "fst (scrub_headers w host ts hs s) = map (scrub_row ts) hs
    \<and> sw_stream_hosts (snd (scrub_headers w host ts hs s)) = sw_stream_hosts s"
proof (induction hs arbitrary: s)
  case (Cons h hs)
  obtain h' s1 where s1: "scrub_header w host ts h s = (h', s1)" by (cases "scrub_header w host ts h s")
  obtain hs' s2 where s2: "scrub_headers w host ts hs s1 = (hs', s2)" by force
  show ?case using Cons [of s1] scrub_header_row [of w host ts h s] s1 s2 by simp
qed simp

lemma delivered:
  assumes "responseheaders w rok fok host sigs rs s = (Deliver rs', s')" and "host_in_list host (sw_hosts s)"
  shows "redirect_leak_target (sw_hosts s) (current_triples w s) rs = None"
    and "rs_headers rs' = approval_headers sigs (map (scrub_row (current_triples w s))
      (neutralize_headers None (refresh_leak_target (sw_hosts s) (current_triples w s) rs) (rs_headers rs)))"
    and "stream_refusal_reason rs' = None \<or> host_allows_stream host s"
proof -
  let ?ts = "current_triples w s" and ?s = "tick s"
  let ?leak = "redirect_leak_target (sw_hosts s) ?ts rs" and ?refresh = "refresh_leak_target (sw_hosts s) ?ts rs"
  let ?hs = "neutralize_headers ?leak ?refresh (rs_headers rs)"
  obtain hs s1 where sh: "scrub_headers w host ?ts ?hs ?s = (hs, s1)" by force
  let ?s2 = "note_leak w host ?ts ''refresh-secret-refused'' ?refresh (note_leak w host ?ts ''redirect-secret-refused'' ?leak s1)"
  have leak: "?leak = None" and run: "refuse_stream w host (rs\<lparr>rs_headers := approval_headers sigs hs\<rparr>) ?s2 = (Deliver rs', s')"
    using assms sh by (auto simp: responseheaders_def Let_def split: if_splits)
  have rs': "rs' = rs\<lparr>rs_headers := approval_headers sigs hs\<rparr>"
    and st: "stream_refusal_reason rs' = None \<or> host_allows_stream host ?s2"
    using run by (auto simp: refuse_stream_def split: option.splits if_splits)
  have hs: "hs = map (scrub_row ?ts) ?hs" and "sw_stream_hosts s1 = sw_stream_hosts s"
    using scrub_headers_rows [of w host ?ts ?hs ?s] sh by simp_all
  then show "stream_refusal_reason rs' = None \<or> host_allows_stream host s" using st by (simp add: host_allows_stream_def)
  show "?leak = None" by (rule leak)
  show "rs_headers rs' = approval_headers sigs (map (scrub_row ?ts) (neutralize_headers None ?refresh (rs_headers rs)))"
    using rs' hs leak by simp
qed

lemma nav_leak_None: "nav_leak_target hosts ts urls = None \<Longrightarrow> u \<in> set urls \<Longrightarrow> leaks_to hosts ts u = None"
  by (simp add: nav_leak_target_def first_some_None_iff)

lemma no_leak_decodings:
  assumes "leaks_to (sw_hosts s) (current_triples w s) u = None" "redirect_target_host u = Some h"
    and "\<not> host_in_list h (sw_hosts s)" "guarded s v ph" "ph \<noteq> v"
  shows "decodings_free v u"
proof -
  have "decode_stage_names (current_triples w s) u = []"
    using assms(1-3) by (simp add: leaks_to_def carries_secret_def split: if_splits)
  then show ?thesis using guarded_decodings assms(4,5) by blast
qed


text \<open>What a delivered header block holds.\<close>

lemma neutralize_member:
  assumes "(k, us) \<in> set (neutralize_headers None refresh hs)" "u \<in> set us"
  shows "u \<in> set (get_all k hs) \<or> u = refresh_neutralized_value"
  using assms in_get_all
  by (auto simp: neutralize_headers_def Let_def split: if_splits dest!: set_all_member)

lemma approval_member:
  assumes "(k, vs) \<in> set (approval_headers sigs hs)"
    and "\<not> same_key pending_header k" "\<not> same_key decision_header k"
  shows "(k, vs) \<in> set hs"
  using assms by (auto simp: approval_headers_rows approval_rows_def del_header_def split: if_splits)

lemma get_approval [simp]:
  "get_all pending_header (approval_headers sigs hs) =
     (if pending_ids sigs = [] then [] else [join_comma (pending_ids sigs)])"
  "get_all decision_header (approval_headers sigs hs) =
     (if decisions sigs = [] then [] else [join_comma (decisions sigs)])"
  using approval_keys_differ by (simp_all add: approval_headers_rows approval_rows_def get_all_Cons)

text \<open>
  C37: What the client sees of a delivered header block is the proxy's word. The approval headers hold
  exactly the signals of this request, whatever the upstream sent under those names; a value of any
  other header but the framing ones is what an upstream value of that header, or the constant of a
  refused refresh, leaves when every guarded value is cut out of it; and the block is not the start
  of a stream, unless the operator opted the host in.
\<close>

theorem delivered_headers:
  assumes "responseheaders w rok fok host sigs rs s = (Deliver rs', s')" and "host_in_list host (sw_hosts s)"
  shows "get_all pending_header (rs_headers rs') = (if pending_ids sigs = [] then [] else [join_comma (pending_ids sigs)])
    \<and> get_all decision_header (rs_headers rs') = (if decisions sigs = [] then [] else [join_comma (decisions sigs)])
    \<and> (\<forall>(k, vs) \<in> set (rs_headers rs'). \<forall>x \<in> set vs.
         str_lower k \<in> set unscrubbed_headers \<or> same_key pending_header k \<or> same_key decision_header k
         \<or> (\<exists>u. (u \<in> set (get_all k (rs_headers rs)) \<or> u = refresh_neutralized_value)
              \<and> cleared s (current_triples w s) u x))
    \<and> (stream_refusal_reason rs' = None \<or> host_allows_stream host s)"
proof -
  let ?ts = "current_triples w s"
  let ?hs = "neutralize_headers None (refresh_leak_target (sw_hosts s) ?ts rs) (rs_headers rs)"
  note hs = delivered(2) [OF assms] and st = delivered(3) [OF assms]
  define Q where "Q k x \<longleftrightarrow>
    (\<exists>u. (u \<in> set (get_all k (rs_headers rs)) \<or> u = refresh_neutralized_value) \<and> cleared s ?ts u x)" for k x
  have vals: "Q k x"
    if kv: "(k, vs) \<in> set (rs_headers rs')" "x \<in> set vs" "str_lower k \<notin> set unscrubbed_headers"
      "\<not> same_key pending_header k" "\<not> same_key decision_header k" for k vs x
  proof -
    have "(k, vs) \<in> set (map (scrub_row ?ts) ?hs)"
      using approval_member [OF kv(1) [unfolded hs] kv(4,5)] .
    then obtain us where us: "(k, us) \<in> set ?hs" "vs = map (scrub_text ?ts) us"
      using kv(3) by (auto simp: scrub_row_def)
    then obtain u where "u \<in> set us" "x = scrub_text ?ts u" using kv(2) by auto
    then show ?thesis unfolding Q_def using neutralize_member [OF us(1)] scrub_cleared by blast
  qed
  have "\<forall>(k, vs) \<in> set (rs_headers rs'). \<forall>x \<in> set vs.
      str_lower k \<in> set unscrubbed_headers \<or> same_key pending_header k \<or> same_key decision_header k \<or> Q k x"
  proof (intro ballI, unfold case_prod_beta, intro ballI)
    fix row x assume row: "row \<in> set (rs_headers rs')" "x \<in> set (snd row)"
    then have "(fst row, snd row) \<in> set (rs_headers rs')" by simp
    then show "str_lower (fst row) \<in> set unscrubbed_headers \<or> same_key pending_header (fst row)
        \<or> same_key decision_header (fst row) \<or> Q (fst row) x"
      using vals [of "fst row" "snd row" x] row(2) by argo
  qed
  note rows = this [unfolded Q_def]
  have p: "get_all pending_header (rs_headers rs') = (if pending_ids sigs = [] then [] else [join_comma (pending_ids sigs)])"
    by (subst hs, rule get_approval(1))
  have d: "get_all decision_header (rs_headers rs') = (if decisions sigs = [] then [] else [join_comma (decisions sigs)])"
    by (subst hs, rule get_approval(2))
  show ?thesis by (rule conjI [OF p conjI [OF d conjI [OF rows st]]])
qed

subsection \<open>A delivered body\<close>

lemma put_text_simps [simp]: "rs_text (put_text tc t rs) = Some t" "rs_wire (put_text tc t rs) = tc_wire tc t"
  by (simp_all add: put_text_def Let_def)

lemma put_text_length:
  "n \<in> set (get_all ''content-length'' (rs_headers (put_text tc t rs))) \<Longrightarrow> n = dec_string (tc_content tc t)"
proof -
  let ?k = "''content-length''" and ?hs = "tc_headers tc t (rs_headers rs)"
  assume n: "n \<in> set (get_all ?k (rs_headers (put_text tc t rs)))"
  have "get_all ?k ?hs \<noteq> []" using n by (cases "get_all ?k ?hs = []") (simp_all add: put_text_def Let_def)
  then have "n \<in> set (get_all ?k (set_all ?k [dec_string (tc_content tc t)] ?hs))"
    using n by (simp add: put_text_def Let_def)
  then show ?thesis using set_all_values by fastforce
qed

lemma checked_page_unrefused: "checked_page hosts ts ct t = (page, []) \<Longrightarrow> page = t"
  by (auto simp: checked_page_def split: if_splits prod.splits)

lemma response_body:
  assumes "response w tc host rs s = (Deliver rs', s')" and "host_in_list host (sw_hosts s)"
    and "is_scrubbable_content_type (content_type (rs_headers rs))"
    and "rs_content rs = Some n" and "n \<le> max_scrub_bytes" and "rs_text rs = Some t"
  shows "rs_text rs' = Some (scrub_text (current_triples w s)
      (fst (checked_page (sw_hosts s) (current_triples w s) (content_type (rs_headers rs)) t)))"
proof -
  let ?ts = "current_triples w s"
  obtain page refused where p: "checked_page (sw_hosts s) ?ts (content_type (rs_headers rs)) t = (page, refused)"
    by (cases "checked_page (sw_hosts s) ?ts (content_type (rs_headers rs)) t")
  show ?thesis
    using assms p checked_page_unrefused [of "sw_hosts s" ?ts "content_type (rs_headers rs)" t page]
    by (auto simp: response_def Let_def split: if_splits)
qed

text \<open>
  C6: No stored value is read back from a page. The text body the \<open>response\<close> hook delivers, of a
  scrubbable type and within the size cap, is the page, with its refresh tags neutralised, cut at
  every guarded value: no stretch of it that stems from the page is such a value.
\<close>

theorem delivered_body_cleared:
  assumes "response w tc host rs s = (Deliver rs', s')" and "host_in_list host (sw_hosts s)"
    and "is_scrubbable_content_type (content_type (rs_headers rs))"
    and "rs_content rs = Some n" and "n \<le> max_scrub_bytes" and "rs_text rs = Some t"
  shows "\<exists>x. rs_text rs' = Some x
    \<and> cleared s (current_triples w s)
        (fst (checked_page (sw_hosts s) (current_triples w s) (content_type (rs_headers rs)) t)) x"
  using response_body [OF assms] scrub_cleared by blast

text \<open>
  C38: A rewritten body declares the wrong length when it is compressed. The repair of the content
  length takes the length of the content with its content encoding taken off; so whenever the body
  hook changes a body whose encoded length differs, every declared length differs from the length
  of the body on the wire.
\<close>

theorem rewritten_body_misdeclared:
  assumes "response w tc host rs s = (Deliver rs', s')" and "rs_text rs' \<noteq> rs_text rs"
    and "rs_text rs' = Some x" and "tc_content tc x \<noteq> tc_wire tc x"
  shows "\<forall>l \<in> set (get_all ''content-length'' (rs_headers rs')). digits_value l \<noteq> rs_wire rs'"
proof -
  obtain rs1 where "rs' = put_text tc x rs1"
    using assms(1-3) by (auto simp: response_def Let_def split: if_splits option.splits prod.splits)
  then show ?thesis using put_text_length assms(4) by fastforce
qed

subsection \<open>A target the check does not see\<close>

definition host_char :: "char \<Rightarrow> bool" where
  "host_char c = (is_lower_ascii c \<or> is_digit c \<or> c = CHR ''.'')"

lemma host_char_plain:
  assumes "host_char c"
  shows "c \<notin> {CHR ''/'', CHR ''?'', CHR ''#'', CHR ''@'', CHR ''['', CHR '']'', CHR '':'', CHR ''%'', CHR 0x5C}"
    "32 < char_code c" "lower_char c = c"
  using assms by (auto simp: host_char_def is_lower_ascii_def is_upper_ascii_def is_digit_def char_code_def lower_char_def)

lemma host_text_plain:
  assumes "list_all host_char h"
  shows "after_last_at h = h" "hostname_of h = (if h = [] then None else Some h)" "netloc_ok h"
proof -
  have p: "host_char c" if "c \<in> set h" for c using assms that by (simp add: list_all_iff)
  have ne: "\<forall>c \<in> set h. c \<noteq> CHR ''@'' \<and> c \<noteq> CHR ''['' \<and> c \<noteq> CHR '']'' \<and> c \<noteq> CHR '':'' \<and> c \<noteq> CHR ''%''"
    using p host_char_plain(1) by blast
  have low: "str_lower h = h" unfolding str_lower_def using p host_char_plain(3) by (simp add: map_idI)
  have "takeWhile (\<lambda>c. c \<noteq> CHR ''@'') (rev h) = rev h"
    unfolding takeWhile_eq_all_conv using ne by simp
  then show at: "after_last_at h = h" by (simp only: after_last_at_def rev_rev_ident)
  have "CHR ''['' \<notin> set h" "CHR '']'' \<notin> set h" "CHR '':'' \<notin> set h" "CHR ''%'' \<notin> set h" using ne by blast+
  then show "hostname_of h = (if h = [] then None else Some h)" "netloc_ok h"
    using low by (simp_all add: hostname_of_def at lower_before_zone_def before_char_no_sep netloc_ok_def dropWhile_eq_Nil_conv)
      auto
qed

lemma clean_slashes:
  assumes "list_all host_char h" "h \<noteq> []"
  shows "\<exists>t. browser_slashes (''///'' @ h @ CHR ''/'' # r) = ''//'' @ h @ CHR ''/'' # t
    \<and> browser_slashes ('' ///'' @ h @ CHR ''/'' # r) = '' ///'' @ h @ CHR ''/'' # t"
proof -
  let ?f = "\<lambda>c. char_code c \<notin> {9, 10, 13}" and ?b = "\<lambda>c. if c = CHR 0x5C then CHR ''/'' else c"
  have p: "host_char c" if "c \<in> set h" for c using assms that by (simp add: list_all_iff)
  have "?f c" if "c \<in> set h" for c using host_char_plain(2) [OF p [OF that]] by auto
  then have f: "filter ?f h = h" by (simp add: filter_id_conv)
  have b: "map ?b h = h" using p host_char_plain(1) by (intro map_idI) auto
  have sl: "?f CHR ''/''" "?f CHR '' ''" by (simp_all add: char_code_def)
  have hd: "hd h \<noteq> CHR ''/''" using p host_char_plain(1) [of "hd h"] assms(2) hd_in_set [of h] by blast
  have strip: "lstrip_char CHR ''/'' (h @ u) = h @ u" for u
    using hd assms(2) by (cases h) (simp_all add: lstrip_char_def)
  show ?thesis
    using f b sl strip
    by (auto simp: browser_slashes_def Let_def has_scheme_def is_alpha_ascii_def is_upper_ascii_def is_lower_ascii_def
        char_code_def lstrip_char_def)
qed

text \<open>
  C39: A leading space hides where a refresh goes. A browser reads three slashes as the start of a host,
  and drops white space before a URL. Without the space the check agrees; with it the check takes
  the same target for a path on the request host, so no refresh tag or redirect with such a
  target is ever refused, whatever it carries.
\<close>

theorem leading_space_hides_target:
  assumes "h \<noteq> []" and "list_all host_char h"
  shows "redirect_target_host (''///'' @ h @ CHR ''/'' # r) = Some h
    \<and> leaks_to hosts ts ('' ///'' @ h @ CHR ''/'' # r) = None"
proof -
  obtain t where t: "browser_slashes (''///'' @ h @ CHR ''/'' # r) = ''//'' @ h @ CHR ''/'' # t"
    "browser_slashes ('' ///'' @ h @ CHR ''/'' # r) = '' ///'' @ h @ CHR ''/'' # t"
    using clean_slashes [OF assms(2,1)] by blast
  have p: "host_char c" if "c \<in> set h" for c using assms that by (simp add: list_all_iff)
  have "char_code c \<notin> {9, 10, 13}" if "c \<in> set h" for c using host_char_plain(2) [OF p [OF that]] by auto
  then have f: "filter (\<lambda>c. char_code c \<notin> {9, 10, 13}) h = h" by (simp add: filter_id_conv)
  let ?t = "filter (\<lambda>c. char_code c \<notin> {9, 10, 13}) t"
  have c: "clean_url (''//'' @ h @ CHR ''/'' # t) = ''//'' @ h @ CHR ''/'' # ?t"
    "clean_url ('' ///'' @ h @ CHR ''/'' # t) = ''///'' @ h @ CHR ''/'' # ?t"
    using f by (simp_all add: clean_url_def char_code_def)
  have s: "strip_scheme (CHR ''/'' # u) = CHR ''/'' # u" "\<not> has_scheme (CHR ''/'' # u)" for u
    by (simp_all add: strip_scheme_def has_scheme_def is_alpha_ascii_def is_upper_ascii_def is_lower_ascii_def char_code_def)
  have "takeWhile (\<lambda>c. \<not> (c = CHR ''/'' \<or> c = CHR ''?'' \<or> c = CHR ''#'')) h = h"
    using p host_char_plain(1) by (auto simp: takeWhile_eq_all_conv)
  then have n: "netloc_of (''//'' @ h @ CHR ''/'' # ?t) = h" "netloc_of (''///'' @ h @ CHR ''/'' # ?t) = []"
    by (simp_all add: netloc_of_def takeWhile_append)
  have "redirect_target_host (''///'' @ h @ CHR ''/'' # r) = Some h"
    unfolding redirect_target_host_def t(1) c(1)
    using s [of "CHR ''/'' # h @ CHR ''/'' # ?t"] n(1) host_text_plain [OF assms(2)] assms(1) by simp
  moreover have "redirect_target_host ('' ///'' @ h @ CHR ''/'' # r) = None"
    unfolding redirect_target_host_def t(2) c(2)
    using s [of "CHR ''/'' # CHR ''/'' # h @ CHR ''/'' # ?t"] n(2) host_text_plain [of "[]"] by simp
  ultimately show ?thesis by (simp add: leaks_to_def)
qed


lemma leading_space_hides_target_witness:
  "leaks_to [] [(''sk-abcd1234'', ''hsurr:gh'', False)] '' ///evil.example/cb?k=sk-%61bcd1234'' = None
    \<and> leaks_to [] [(''sk-abcd1234'', ''hsurr:gh'', False)] ''///evil.example/cb?k=sk-%61bcd1234'' = Some ''evil.example''"
proof -
  have "leaks_to [] [(''sk-abcd1234'', ''hsurr:gh'', False)] '' ///evil.example/cb?k=sk-%61bcd1234'' = None"
    using leading_space_hides_target [of "''evil.example''" "''cb?k=sk-%61bcd1234''" "[]"]
    by (simp add: host_char_def is_lower_ascii_def char_code_def)
  moreover have "leaks_to [] [(''sk-abcd1234'', ''hsurr:gh'', False)] ''///evil.example/cb?k=sk-%61bcd1234''
      = Some ''evil.example''"
    by code_simp
  ultimately show ?thesis by blast
qed

subsection \<open>Examples\<close>

definition scrub_swap :: swap where
  "scrub_swap = sample_swap\<lparr>sw_secrets := [(''gh'', Single ''sk-abcd1234'')]\<rparr>"

lemma scrub_swap_guarded: "guarded scrub_swap ''sk-abcd1234'' ''hsurr:gh''"
  "host_in_list ''api.github.com'' (sw_hosts scrub_swap)" "\<not> host_in_list ''evil.example'' (sw_hosts scrub_swap)"
  by code_simp+

definition other_http :: http where
  "other_http = (sample_http ''Bearer x'')\<lparr>rq_pretty_host := ''evil.example'', rq_host := ''evil.example''\<rparr>"


definition sample_response :: "nat \<Rightarrow> headers \<Rightarrow> string \<Rightarrow> response" where
  "sample_response st hs t = \<lparr>rs_status = st, rs_headers = hs, rs_wire = length t, rs_content = Some (length t), rs_text = Some t\<rparr>"

abbreviation sample_redirect :: response where
  "sample_redirect \<equiv> sample_response 302
     [(''Location'', [''https://evil.example/?k=sk-%61'']), (''x-spark-approval-pending'', [''forged'']),
      (''X-Key'', [''sk-abcd1234''])] []"

abbreviation redirect_run :: "delivery \<times> swap" where
  "redirect_run \<equiv> responseheaders sample_surroundings True True ''api.github.com'' [(''a1'', Pending)] sample_redirect scrub_swap"

definition redirect_out :: response where
  "redirect_out = sample_response 302
     [(''Location'', [''https://evil.example/?k=sk-%61'']), (''X-Key'', [''hsurr:gh'']),
      (''X-Spark-Approval-Pending'', [''a1''])] []"

lemma redirect_run_delivers: "redirect_run = (Deliver redirect_out, snd redirect_run)"
proof -
  have "fst redirect_run = Deliver redirect_out" by code_simp
  then show ?thesis by (metis prod.collapse)
qed


lemma delivered_headers_witness:
  "get_all pending_header (rs_headers redirect_out) = [''a1''] \<and> stream_refusal_reason redirect_out = None"
proof -
  have "pending_ids [(''a1'', Pending)] = [''a1'']" "\<not> host_allows_stream ''api.github.com'' scrub_swap" by code_simp+
  then show ?thesis using delivered_headers [OF redirect_run_delivers scrub_swap_guarded(2)] by simp
qed

abbreviation sample_page :: response where
  "sample_page \<equiv> sample_response 200 [(''content-type'', [''text/plain'']), (''Content-Length'', [''13''])] ''k=sk-abcd1234''"

definition gzip_codec :: text_codec where
  "gzip_codec = \<lparr>tc_wire = \<lambda>t. 20 + length t, tc_content = length, tc_headers = \<lambda>t hs. hs\<rparr>"

abbreviation page_run :: "delivery \<times> swap" where
  "page_run \<equiv> response sample_surroundings gzip_codec ''api.github.com'' sample_page scrub_swap"

lemma page_facts:
  "is_scrubbable_content_type (content_type (rs_headers sample_page))"
  "checked_page (sw_hosts scrub_swap) ts (content_type (rs_headers sample_page)) t = (t, [])"
  "scrub_text (current_triples sample_surroundings scrub_swap) ''k=sk-abcd1234'' = ''k=hsurr:gh''"
  by code_simp+

lemma page_run_delivers: "page_run = (Deliver (put_text gzip_codec ''k=hsurr:gh'' sample_page), tick scrub_swap)"
proof -
  have "\<not> max_scrub_bytes < length ''k=sk-abcd1234''" by (simp add: max_scrub_bytes_def)
  then show ?thesis
    using page_facts(1,2) scrub_swap_guarded(2) page_facts(3)
    by (simp add: response_def Let_def sample_response_def)
qed

lemma delivered_body_cleared_witness:
  "\<exists>u. cleared scrub_swap (current_triples sample_surroundings scrub_swap) u ''k=hsurr:gh''"
proof -
  have "length ''k=sk-abcd1234'' \<le> max_scrub_bytes" by (simp add: max_scrub_bytes_def)
  then show ?thesis
    using delivered_body_cleared [OF page_run_delivers scrub_swap_guarded(2) page_facts(1)]
    by (auto simp: sample_response_def)
qed

lemma rewritten_body_misdeclared_witness:
  "\<exists>rs :: response. get_all ''content-length'' (rs_headers rs) = [''10''] \<and> digits_value ''10'' \<noteq> rs_wire rs"
proof -
  let ?rs = "put_text gzip_codec ''k=hsurr:gh'' sample_page"
  have l: "get_all ''content-length'' (rs_headers ?rs) = [''10'']" by code_simp
  have "\<forall>l \<in> set (get_all ''content-length'' (rs_headers ?rs)). digits_value l \<noteq> rs_wire ?rs"
    by (rule rewritten_body_misdeclared [OF page_run_delivers, of "''k=hsurr:gh''"])
      (simp_all add: sample_response_def gzip_codec_def)
  then have "digits_value ''10'' \<noteq> rs_wire ?rs" using l by (metis list.set_intros(1))
  with l show ?thesis by blast
qed

end
