(* ===== verification/Approval_Flow.thy ===== *)
theory Approval_Flow
  imports Confirmd_Run Swap_Gate
begin

section \<open>From an approval to the request it was filed for\<close>

text \<open>
  The three programs on the way of one approval together: confirmd accepts the owner's approve and
  runs the grant writer, other runs of the writer change the grants file, and the proxy reads the
  file when the request comes again.
\<close>

subsection \<open>Later runs of the grant writer\<close>

text \<open>
  A run is an \<open>add\<close> or a \<open>revoke\<close> of another job, at an instant under the lock that is not
  earlier than that of the runs before it.
\<close>

inductive writer_run :: "string \<Rightarrow> int \<times> grant list \<Rightarrow> int \<times> grant list \<Rightarrow> bool" for job where
  wait: "t \<le> t' \<Longrightarrow> writer_run job (t, gs) (t', gs)"
| add: "writer_run job (t, gs) (t, snd (grant_add now0 t audit_ok save_ok a gs))"
| revoke: "j \<noteq> job \<Longrightarrow> writer_run job (t, gs) (t, snd (grant_revoke t audit_ok save_ok j gs))"

lemma add_keeps:
  assumes "g \<in> set gs" and "g_expires g = At e" and "t < e"
  shows "g \<in> set (snd (grant_add now0 t ao so a gs))"
proof -
  obtain code gs' where r: "grant_add now0 t ao so a gs = (code, gs')" by force
  show ?thesis
  proof (cases "code = 0")
    case True
    have "g \<in> set (reap_expired t gs)" using assms by (simp add: set_reap)
    then show ?thesis using grant_add_0 [OF r [unfolded True]] r by auto
  next
    case False
    then show ?thesis using grant_add_nonzero [OF r] r assms(1) by simp
  qed
qed

lemma revoke_keeps:
  assumes "g \<in> set gs" and "g_expires g = At e" and "t < e" and "g_job g \<noteq> j"
  shows "g \<in> set (snd (grant_revoke t ao so j gs))"
  using assms by (auto simp: grant_revoke_def with_lock_def Let_def set_reap)

lemma writer_run_keeps:
  assumes "(writer_run job)\<^sup>*\<^sup>* (t, gs) (t', gs')"
    and "g \<in> set gs" and "g_expires g = At e" and "g_job g = job" and "t' < e"
  shows "g \<in> set gs'"
  using assms(1,5)
proof (induction "(t', gs')" arbitrary: t' gs' rule: rtranclp_induct)
  case base
  then show ?case using assms(2) by simp
next
  case (step y)
  obtain u hs where y: "y = (u, hs)" by force
  from step(2) [unfolded y] have "u \<le> t'" by cases auto
  then have h: "g \<in> set hs" using step(3) [OF y] step(4) by simp
  from step(2) [unfolded y] show ?case
  proof cases
    case add
    then show ?thesis using add_keeps [OF h assms(3)] step(4) by simp
  next
    case (revoke j)
    then show ?thesis using revoke_keeps [OF h assms(3)] step(4) assms(4) by simp
  qed (use h in simp)
qed

subsection \<open>The approved request\<close>

text \<open>What an approval is for: the credential, host, method and path prefix of the request.\<close>

definition approves :: "item \<Rightarrow> string \<Rightarrow> string \<Rightarrow> string option \<Rightarrow> string option \<Rightarrow> bool" where
  "approves it name host method path \<longleftrightarrow>
     it_credential it = Some name \<and> it_host it = Some host
     \<and> str_upper (or_default (it_method it) []) = str_upper (or_default method [])
     \<and> path_allowed (normalize_path (or_default path ''/'')) [or_default (it_path_prefix it) ''/'']"

text \<open>The grants file as the proxy finds it after the writer has saved it.\<close>

definition grants_on_disk :: "int \<Rightarrow> grant list \<Rightarrow> grants_disk" where
  "grants_on_disk mtime gs = \<lparr>gd_mtime = Some mtime, gd_rows = Some (map (\<lambda>g. Some (row_of_grant g)) gs)\<rparr>"

lemma approved_grant:
  assumes "\<And>l d. grants_file (snd (pe l d)) = grants_file d"
    and "p_path p = ''/answer''" and "p_decision p = ''approve''"
    and "do_POST pe origins e flt re login p c = (See_Other ''/'', c')"
    and "dir_get (pending (store c)) (json_name (p_id p)) = Some f" and "f_content f = Item it"
    and "\<forall>g \<in> set (grants_file c). g_approval_id g \<noteq> p_id p"
  shows "\<exists>ttl \<in> {1, 24}. new_grant (at_mint e) (mint_args_of (p_id p) ttl it) \<in> set (grants_file c')"
proof -
  obtain ttl where a: "answer_locked e flt login (p_id p) (p_csrf p) (p_decision p) ttl (aid_xlock flt (p_id p) c)
      = (See_Other ''/'', c')"
    using assms(2-4) by (auto simp: do_POST_def post_refusal_def Let_def split: option.splits if_splits)
  obtain g where g: "g \<in> set (grants_file c')" "g_approval_id g = p_id p"
    using answer_locked_303(4) [OF a] assms(3) by auto
  then have "g \<in> set (grants_file (snd (do_POST pe origins e flt re login p c)))" "g \<notin> set (grants_file c)"
    using assms(4,7) by auto
  from minted_by_approval [OF assms(1) this] g(1) assms(5,6) show ?thesis by auto
qed

lemma minted_row_applies:
  assumes "approves it name host method path" and "ttl \<in> {1, 24}" and "now + seconds 5 \<le> t + hours 1"
    and "g = new_grant t (mint_args_of aid ttl it)"
  shows "row_applies now name host (str_upper (or_default method [])) (row_of_grant g)"
    and "path_allowed (normalize_path (or_default path ''/'')) [or_default (gr_path_prefix (row_of_grant g)) ''/'']"
proof -
  have o: "or_default (Some (or_default x ''/'')) ''/'' = or_default x ''/''" for x
    by (simp add: or_default_def split: option.splits)
  show "path_allowed (normalize_path (or_default path ''/'')) [or_default (gr_path_prefix (row_of_grant g)) ''/'']"
    using assms(1) by (simp add: assms(4) approves_def row_of_grant_def new_grant_def mint_args_of_def o)
  have "hours 1 \<le> hours (clamp_ttl ttl)" using assms(2) by (auto simp: clamp_ttl_def hours_def seconds_def)
  then have "now + seconds 5 \<le> t + hours (clamp_ttl ttl)" using assms(3) by simp
  moreover have "or_default (Some x) [] = x" for x :: string by (simp add: or_default_def)
  ultimately show "row_applies now name host (str_upper (or_default method [])) (row_of_grant g)"
    using assms(1)
    by (simp add: assms(4) approves_def row_applies_def row_of_grant_def new_grant_def mint_args_of_def
        grant_min_validity_def seconds_def)
qed

text \<open>
  C3: an approval lets the request through it was filed for. When confirmd has accepted the owner's
  approve of an item, then whatever the grant writer does in between other than revoking the
  item's job, the proxy lets a request for the approved credential, host, method and a path under
  the approved prefix pass at every instant up to five seconds before the grant's hour has run
  out, given that the registry still binds the host and the path is not evasive.
\<close>

theorem approved_request_passes:
  assumes "\<And>l d. grants_file (snd (pe l d)) = grants_file d"
    and "p_path p = ''/answer''" and "p_decision p = ''approve''"
    and "do_POST pe origins e flt re login p c = (See_Other ''/'', c')"
    and "dir_get (pending (store c)) (json_name (p_id p)) = Some f" and "f_content f = Item it"
    and "\<forall>g \<in> set (grants_file c). g_approval_id g \<noteq> p_id p"
    and "(writer_run (or_default (it_job it) []))\<^sup>*\<^sup>* (t, grants_file c') (now, gs)"
    and "now + seconds 5 \<le> at_mint e + hours 1"
    and "approves it name host method path" and "\<not> evasive (normalize_path (or_default path ''/''))"
    and "reg_spec (g_registry a) name = Some s" and "sp_hosts s = Some hosts" and "host_in_list host hosts"
    and "g_grants_mtime a \<noteq> Some (Some mtime)"
  shows "\<exists>row. fst (allows_request (grants_on_disk mtime gs) now name host method path (reset_verdicts a))
    = Allowed (Some row)"
proof -
  obtain ttl where ttl: "ttl \<in> {1, 24}"
    and minted: "new_grant (at_mint e) (mint_args_of (p_id p) ttl it) \<in> set (grants_file c')" (is "?g \<in> _")
    using approved_grant [OF assms(1-7)] by blast
  note row = minted_row_applies [OF assms(10) ttl assms(9) refl, of "p_id p"]
  have "now < at_mint e + hours (clamp_ttl ttl)"
    using ttl assms(9) by (auto simp: clamp_ttl_def hours_def seconds_def)
  then have "?g \<in> set gs"
    by (intro writer_run_keeps [OF assms(8) minted]) (simp_all add: new_grant_def mint_args_of_def)
  then have "Some (row_of_grant ?g) \<in> set (map (\<lambda>g. Some (row_of_grant g)) gs)" by simp
  from live_grant_admits [OF assms(12-14) this row assms(11)] assms(15) show ?thesis
    by (simp add: allows_request_def read_grants_def grants_on_disk_def reset_verdicts_def Let_def)
qed

subsection \<open>A run\<close>

definition stripe_gate :: gate where
  "stripe_gate = load_registry [(''stripe'', Some \<lparr>sp_hosts = Some [''api.stripe.com''], sp_methods = Some [''GET''],
     sp_paths = Some [], sp_entries = []\<rparr>)] init_gate"

definition other_mint :: mint_args where
  "other_mint = \<lparr>a_credential = ''gh'', a_host = ''api.github.com'', a_method = ''GET'', a_path_prefix = ''/'',
     a_approval_id = ''b7'', a_scope = [], a_job = ''j2'', a_ttl_hours = 1, a_approval_expires = No_Stamp\<rparr>"

definition later_grants :: "grant list" where
  "later_grants = snd (grant_revoke (seconds 9) True True ''j2''
     (snd (grant_add (seconds 8) (seconds 8) True True other_mint [sample_grant])))"

lemma later_grants_run: "(writer_run [])\<^sup>*\<^sup>* (seconds 8, [sample_grant]) (seconds 600, later_grants)"
proof -
  let ?gs = "snd (grant_add (seconds 8) (seconds 8) True True other_mint [sample_grant])"
  have "writer_run [] (seconds 8, [sample_grant]) (seconds 8, ?gs)" by (rule writer_run.add)
  moreover have "writer_run [] (seconds 8, ?gs) (seconds 9, ?gs)" by (rule writer_run.wait) (simp add: seconds_def)
  moreover have "writer_run [] (seconds 9, ?gs) (seconds 9, later_grants)"
    unfolding later_grants_def by (rule writer_run.revoke) simp
  moreover have "writer_run [] (seconds 9, later_grants) (seconds 600, later_grants)"
    by (rule writer_run.wait) (simp add: seconds_def)
  ultimately show ?thesis by (meson r_into_rtranclp rtranclp_trans)
qed

lemma stripe_host: "host_in_list ''api.stripe.com'' [''api.stripe.com'']"
  by (simp add: host_in_list_def entry_matches_def norm_host_def norm_entry_def strip_brackets_def
      ip_address_def py_eval char_of_def bit_iff_odd)

theorem approved_request_passes_witness:
  "\<exists>row. fst (allows_request (grants_on_disk 1 later_grants) (seconds 600) ''stripe'' ''api.stripe.com''
     (Some ''POST'') (Some ''/v1'') (reset_verdicts stripe_gate)) = Allowed (Some row)"
proof (rule approved_request_passes [where pe = "\<lambda>_ c. (Status 204, c)" and origins = "[]" and e = sample_env
      and flt = no_faults and re = sample_reopen_env and login = "''owner''" and p = "sample_post ''approve''"
      and c = shown_sample and c' = "decided_state ''approve''" and f = sample_file and it = sample_item
      and t = "seconds 8" and s = "the (reg_spec (g_registry stripe_gate) ''stripe'')" and hosts = "[''api.stripe.com'']"])
  show "do_POST (\<lambda>_ c. (Status 204, c)) [] sample_env no_faults sample_reopen_env ''owner'' (sample_post ''approve'')
      shown_sample = (See_Other ''/'', decided_state ''approve'')"
    using answered_sample_eq [of "''approve''"] by (simp add: answered_sample_def)
  show "dir_get (pending (store shown_sample)) (json_name (p_id (sample_post ''approve''))) = Some sample_file"
    using shown_facts by (simp add: sample_post_def json_name_def)
  show "f_content sample_file = Item sample_item" by (simp add: sample_file_def)
  show "\<forall>g \<in> set (grants_file shown_sample). g_approval_id g \<noteq> p_id (sample_post ''approve'')"
    by (simp add: shown_facts)
  show "(writer_run (or_default (it_job sample_item) []))\<^sup>*\<^sup>*
      (seconds 8, grants_file (decided_state ''approve'')) (seconds 600, later_grants)"
    using later_grants_run by (simp add: sample_item_def or_default_def decided_state_def empty_item_def)
  show "seconds 600 + seconds 5 \<le> at_mint sample_env + hours 1" by (simp add: sample_env_def seconds_def hours_def)
  have root: "normalize_path ''/'' = ''/''"
    by (rule normalize_path_evalI [where p = "''/''" and q = "''/''"]) (simp_all add: path_eval)
  have v1: "normalize_path ''/v1'' = ''/v1''"
    by (rule normalize_path_evalI [where p = "''/v1''" and q = "''/v1''"]) (simp_all add: path_eval)
  show "approves sample_item ''stripe'' ''api.stripe.com'' (Some ''POST'') (Some ''/v1'')"
    by (simp add: approves_def sample_item_def or_default_def empty_item_def py_eval path_allowed_iff root v1
        char_of_def bit_iff_odd)
  show "\<not> evasive (normalize_path (or_default (Some ''/v1'') ''/''))"
    by (simp add: or_default_def v1 evasive_def)
qed (simp_all add: sample_post_def stripe_gate_def load_registry_def init_gate_def reg_spec_def stripe_host)

end
