(* ===== verification/Spec2Isabelle.thy ===== *)
theory Spec2Isabelle
  imports Py_Prelude Ip_Address Host_Match Egress_Guard Path_Scope Bounded_Cache Approval_Store
    Grant_Writer Confirmd_State Confirmd_Housekeeping Confirmd_Answer Confirmd_Safety Confirmd_Run Swap_Gate Swap_Approvals
    Swap_Filing_Safety Text_Codecs Totp_Code Swap_Text Audit_Log Swap_Safety
    Swap_Scrub Scrub_Safety Swap_Hooks Swap_Hook_Safety Swap_Hook_Run
    Swap_Response Response_Safety Response_Run Approval_Flow
begin

section \<open>Verification of the credential path of spark-vm\<close>

text \<open>
  The repository turns a virtual machine into a workstation for an agent that never holds a secret.
  The agent writes placeholders (\<open>hsurr:name\<close>); a proxy on the box replaces them by stored values on
  the way out, within what a registry and owner-approved grants allow; a request beyond that
  becomes an approval, which the owner answers in the confirm service, which in turn lets the grant
  writer add a grant. This development models that path: \<open>src/proxy/swap_addon.py\<close>,
  \<open>src/proxy/host_match.py\<close>, \<open>src/proxy/grant-writer\<close> and \<open>src/confirm/confirmd.py\<close>.

  The theories, in the order of their dependencies.

  \<^item> \<open>Py_Prelude\<close>: the operations of Python's strings, dictionaries, regular expressions and
    timestamps the code uses, with the collections \<open>py_eval\<close> (evaluation) and \<open>py_str\<close> (reasoning).
    \<open>Ip_Address\<close>: the \<open>ipaddress\<close> parser and networks. \<open>Bounded_Cache\<close>: the three disciplines by
    which the services bound a dictionary, as interpretations of one locale. \<open>Text_Codecs\<close>:
    percent encoding, form encoding, Base64 and JSON escaping, with their round trips. \<open>Totp_Code\<close>:
    \<open>_totp_code\<close>, with SHA-1 on 32-bit words, HMAC and Base32.
  \<^item> \<open>Host_Match\<close> (\<open>host_in_list\<close>, \<open>parse_ssrf_allow\<close>, \<open>_norm_authority\<close>) and \<open>Egress_Guard\<close>
    (\<open>_normalize_ip\<close>, \<open>_is_private_ip\<close>, \<open>_resolve_ips\<close>, \<open>server_connect\<close>, \<open>_check_authority\<close>): which
    address a connection may be pinned to.
  \<^item> \<open>Path_Scope\<close> (\<open>_normalize_path\<close>, \<open>_path_allowed\<close>, with \<open>urlsplit\<close>, \<open>unquote\<close> and \<open>normpath\<close>): the
    path half of a grant. The decoding loop is bounded by the number of per cent signs and the
    length, which every pass that changes the text decreases.
  \<^item> \<open>Swap_Gate\<close> (\<open>_credential_allows_request\<close> and its caches, \<open>_grants\<close>, \<open>_placement_allows\<close>): the verdict
    on one request. \<open>gate_run\<close> is the life of the caches.
  \<^item> \<open>Approval_Store\<close>: the directories both services share, and the write-once stampers of the
    expired record, whose contract is the locale \<open>write_once\<close>. A directory carries a version in place
    of its modification time.
  \<^item> \<open>Swap_Approvals\<close> (\<open>_approval_signal_for_refusal\<close> and everything below it) and
    \<open>Swap_Filing_Safety\<close>: filing an approval for a refused request; \<open>filer_reach\<close> is the life of the
    filer while other programs move the store forward.
  \<^item> \<open>Swap_Text\<close> (the placeholder grammar, \<open>_resolve\<close>, the audit writers, \<open>_swap_text\<close>,
    \<open>_swap_json_text\<close>, \<open>_swap_form_body\<close>, \<open>_swap_basic_auth\<close>) and \<open>Swap_Safety\<close>: the substitution.
    \<open>Audit_Log\<close> (\<open>_sanitize_audit_field\<close>, the formats of the audit writers, the guard of the log's file
    system) has a reader of the log and its round trip. \<open>Swap_Hooks\<close> (\<open>_load\<close>, \<open>_maybe_reload\<close>, \<open>request\<close>, \<open>websocket_message\<close>), \<open>Swap_Hook_Safety\<close> and
    \<open>Swap_Hook_Run\<close>: the hooks. The locale \<open>hook_steps\<close> carries a relation between states from the
    replacement of one placeholder to a whole hook; it is interpreted for the evolution of the state
    and for the lines of the log.
  \<^item> \<open>Swap_Scrub\<close> (\<open>_secret_replacements\<close>, \<open>_scrub_text_value\<close>, \<open>_matched_secret_names\<close>,
    \<open>_decode_stage_names\<close>, \<open>_redirect_target_host\<close>, the refresh targets of headers and pages) and
    \<open>Scrub_Safety\<close>: stored values in a text. The scrubber is proved to be the erasure of one that
    tracks where each character comes from; the loop over the decodings ends at a repetition,
    which is a fixpoint as decoding only shrinks a text. \<open>Swap_Response\<close> (\<open>responseheaders\<close>,
    \<open>response\<close>), \<open>Response_Safety\<close> (the values looked for, requests to other hosts) and
    \<open>Response_Run\<close> (redirects, delivered headers and bodies).
  \<^item> \<open>Grant_Writer\<close> (\<open>cmd_add\<close>, \<open>cmd_revoke\<close>): the only writer of \<open>grants.json\<close>.
  \<^item> \<open>Confirmd_State\<close>, \<open>Confirmd_Housekeeping\<close>, \<open>Confirmd_Answer\<close>: the nonces, the reaping render, the
    sweeps and prunes, the answer and re-open handlers. \<open>Confirmd_Safety\<close> has the step relation
    \<open>confirmd_step\<close> over both services and the invariant of the store, \<open>Confirmd_Run\<close> the properties.
  \<^item> \<open>Approval_Flow\<close>: the three programs together, from the owner's approve over later runs of the grant
    writer (\<open>writer_run\<close>) to the repeated request at the proxy.

  Conventions. Text is the list of its UTF-8 bytes; case mapping, digits, letters, white space and line
  ends are those of ASCII. Instants are integers, in microseconds, or seconds in the egress guard. A JSON value
  is decoded: a missing field is \<open>None\<close>, a value of an unexpected shape a constructor of its own.
  Whatever the surroundings decide is an argument: the clock, the contents of a file, the outcome
  of each file operation, the resolver, the fate of an audit write. In the substitution these are
  functions of the number of interactions so far (\<open>surroundings\<close>). An exception that leaves a hook is a
  result (\<open>None\<close>, \<open>Uncaught\<close>, \<open>Crashed\<close>). Loops over directories and texts are recursions over
  lists, so there is no fuel anywhere.

  Parameters that stand for code elsewhere: mitmproxy's view of a request (header keys with all
  values, decoded query) and of a body (its lengths, its text, what its setter does to the headers),
  whether a scan for stored values raises, what the scan of an authority finds, whether a text is
  valid JSON, the push endpoint of confirmd, the identity Tailscale gives a connection.

  Not modelled. In the proxy: the summons journal and its sweep, the warnings and file modes. In
  confirmd: the HTML, the static files, the push subscriptions and the Tailscale lookup. Outside of
  the path: the pairing wizard, the wait list, the fleet and hosted planes, the job runner, the
  browser and desktop drivers, the credential editor, the harness and the scripts; they are
  other programs, which reach the path through the files modelled here.
\<close>

end
